theory Spec2Isabelle
  imports
    Complex_Main
    "HOL-Library.Log_Nat"
    "HOL-Library.AList"
    "HOL-Library.Char_ord"
    "HOL-Library.List_Lexorder"
    "HOL-Library.Multiset"
begin

section \<open>JavaScript numbers\<close>

text \<open>
  A JavaScript \<open>number\<close> is an IEEE-754 binary64 value.  A finite double is modelled
  by the real number it denotes; every arithmetic operation computes the exact real
  result and rounds it to the nearest double, ties to even (\<open>round64\<close>).  Signed zero
  is not distinguished.
\<close>

datatype jsnum = NaN | PInf | NInf | Fin real

definition pow2 :: "int \<Rightarrow> real" where
  "pow2 e = (if 0 \<le> e then 2 ^ nat e else 1 / 2 ^ nat (- e))"

definition pow10 :: "int \<Rightarrow> real" where
  "pow10 e = (if 0 \<le> e then 10 ^ nat e else 1 / 10 ^ nat (- e))"

text \<open>The binary exponent of a positive real, not below the subnormal exponent.\<close>

definition expo :: "real \<Rightarrow> int" where
  "expo x = (if 1 \<le> x then bitlen \<lfloor>x\<rfloor> - 1
             else max (- bitlen (\<lceil>1 / x\<rceil> - 1)) (- 1022))"

text \<open>Round to the nearest integer, ties to the even one.\<close>

definition rne :: "real \<Rightarrow> int" where
  "rne x = (let f = \<lfloor>x\<rfloor>; d = x - of_int f in
     if d < 1 / 2 then f else if 1 / 2 < d then f + 1 else if even f then f else f + 1)"

definition fl_pos :: "real \<Rightarrow> real" where
  "fl_pos x = (let u = pow2 (expo x - 52) in of_int (rne (x / u)) * u)"

definition fl :: "real \<Rightarrow> real" where
  "fl x = (if x = 0 then 0 else if 0 < x then fl_pos x else - fl_pos (- x))"

definition round64 :: "real \<Rightarrow> jsnum" where
  "round64 x = (let y = fl x in
     if 2 ^ 1024 \<le> y then PInf else if y \<le> - (2 ^ 1024) then NInf else Fin y)"

definition ofInt :: "int \<Rightarrow> jsnum" where
  "ofInt i = Fin (of_int i)"

definition ofNat :: "nat \<Rightarrow> jsnum" where
  "ofNat n = Fin (of_nat n)"

fun jneg :: "jsnum \<Rightarrow> jsnum" where
  "jneg NaN = NaN"
| "jneg PInf = NInf"
| "jneg NInf = PInf"
| "jneg (Fin a) = Fin (- a)"

fun jadd :: "jsnum \<Rightarrow> jsnum \<Rightarrow> jsnum" where
  "jadd NaN y = NaN"
| "jadd x NaN = NaN"
| "jadd PInf NInf = NaN"
| "jadd NInf PInf = NaN"
| "jadd PInf y = PInf"
| "jadd x PInf = PInf"
| "jadd NInf y = NInf"
| "jadd x NInf = NInf"
| "jadd (Fin a) (Fin b) = round64 (a + b)"

definition jsub :: "jsnum \<Rightarrow> jsnum \<Rightarrow> jsnum" where
  "jsub x y = jadd x (jneg y)"

fun jmul :: "jsnum \<Rightarrow> jsnum \<Rightarrow> jsnum" where
  "jmul NaN y = NaN"
| "jmul x NaN = NaN"
| "jmul (Fin a) (Fin b) = round64 (a * b)"
| "jmul (Fin a) y = (if a = 0 then NaN else if 0 < a then y else jneg y)"
| "jmul x (Fin b) = (if b = 0 then NaN else if 0 < b then x else jneg x)"
| "jmul x y = (if x = y then PInf else NInf)"

fun jdiv :: "jsnum \<Rightarrow> jsnum \<Rightarrow> jsnum" where
  "jdiv NaN y = NaN"
| "jdiv x NaN = NaN"
| "jdiv (Fin a) (Fin b) =
     (if b = 0 then (if a = 0 then NaN else if 0 < a then PInf else NInf)
      else round64 (a / b))"
| "jdiv (Fin a) y = Fin 0"
| "jdiv x (Fin b) = (if 0 \<le> b then x else jneg x)"
| "jdiv x y = NaN"

text \<open>\<open>Math.pow(x, 2)\<close>, the only exponent the program uses.\<close>

definition Math_pow2 :: "jsnum \<Rightarrow> jsnum" where
  "Math_pow2 x = jmul x x"

fun Math_sqrt :: "jsnum \<Rightarrow> jsnum" where
  "Math_sqrt NaN = NaN"
| "Math_sqrt PInf = PInf"
| "Math_sqrt NInf = NaN"
| "Math_sqrt (Fin a) = (if a < 0 then NaN else round64 (sqrt a))"

text \<open>The comparison \<open>x <= y\<close>: false as soon as one side is \<open>NaN\<close>.\<close>

fun jle :: "jsnum \<Rightarrow> jsnum \<Rightarrow> bool" where
  "jle NaN y = False"
| "jle x NaN = False"
| "jle NInf y = True"
| "jle x PInf = True"
| "jle PInf y = False"
| "jle x NInf = False"
| "jle (Fin a) (Fin b) = (a \<le> b)"

definition Math_max :: "jsnum \<Rightarrow> jsnum \<Rightarrow> jsnum" where
  "Math_max x y = (if x = NaN \<or> y = NaN then NaN else if jle x y then y else x)"

definition Math_min :: "jsnum \<Rightarrow> jsnum \<Rightarrow> jsnum" where
  "Math_min x y = (if x = NaN \<or> y = NaN then NaN else if jle x y then x else y)"

text \<open>
  A number that is an integer or \<open>NaN\<close> (what \<open>getFullYear\<close> and \<open>getMonth\<close>
  return): \<open>None\<close> is \<open>NaN\<close>.
\<close>

type_synonym jsint = "int option"

section \<open>Numbers and strings\<close>

definition digitChar :: "nat \<Rightarrow> char" where
  "digitChar n = ''0123456789'' ! n"

definition isDigit :: "char \<Rightarrow> bool" where
  "isDigit c = (c \<in> set ''0123456789'')"

definition digitVal :: "char \<Rightarrow> nat" where
  "digitVal c = of_char c - 48"

fun natToString :: "nat \<Rightarrow> string" where
  "natToString n =
     (if n < 10 then [digitChar n] else natToString (n div 10) @ [digitChar (n mod 10)])"

declare natToString.simps [simp del]

definition intToString :: "int \<Rightarrow> string" where
  "intToString i = (if i < 0 then CHR ''-'' # natToString (nat (- i)) else natToString (nat i))"

text \<open>The template rendering \<open>`${n}`\<close> of an integer or \<open>NaN\<close>.\<close>

definition jsintToString :: "jsint \<Rightarrow> string" where
  "jsintToString n = (case n of None \<Rightarrow> ''NaN'' | Some i \<Rightarrow> intToString i)"

definition padStart :: "nat \<Rightarrow> char \<Rightarrow> string \<Rightarrow> string" where
  "padStart n c s = replicate (n - length s) c @ s"

definition parseNat :: "string \<Rightarrow> nat" where
  "parseNat ds = foldl (\<lambda>acc c. 10 * acc + digitVal c) 0 ds"

text \<open>
  \<open>Number.prototype.toString\<close>: the shortest digit string \<open>s\<close> (of \<open>k\<close> digits, with
  decimal exponent \<open>n\<close>) that reads back as the same double.
\<close>

function decExpSmall :: "int \<Rightarrow> real \<Rightarrow> int" where
  "decExpSmall n x =
     (if 1 / 10 \<le> x \<or> n \<le> - 400 then n else decExpSmall (n - 1) (x * 10))"
  by pat_completeness auto
termination
  by (relation "measure (\<lambda>(n, x). nat (n + 400))") auto

declare decExpSmall.simps [simp del]

definition decExp :: "real \<Rightarrow> int" where
  "decExp x = (if 1 \<le> x then int (length (natToString (nat \<lfloor>x\<rfloor>))) else decExpSmall 0 x)"

function shortest :: "nat \<Rightarrow> int \<Rightarrow> real \<Rightarrow> nat \<times> nat" where
  "shortest k n x =
     (let s = nat \<lfloor>x / pow10 (n - int k) + 1 / 2\<rfloor> in
      if 17 \<le> k \<or> fl (of_nat s * pow10 (n - int k)) = x then (s, k)
      else shortest (k + 1) n x)"
  by pat_completeness auto
termination
  by (relation "measure (\<lambda>(k, n, x). 17 - k)") auto

declare shortest.simps [simp del]

definition posToString :: "real \<Rightarrow> string" where
  "posToString x =
     (let n0 = decExp x;
          (s0, k) = shortest 1 n0 x;
          (s, n) = (if s0 = 10 ^ k then (s0 div 10, n0 + 1) else (s0, n0));
          ds = natToString s
      in if int k \<le> n \<and> n \<le> 21 then ds @ replicate (nat (n - int k)) CHR ''0''
         else if 0 < n \<and> n \<le> 21 then take (nat n) ds @ ''.'' @ drop (nat n) ds
         else if - 6 < n \<and> n \<le> 0 then ''0.'' @ replicate (nat (- n)) CHR ''0'' @ ds
         else (let e = n - 1;
                   es = (if e < 0 then ''-'' else ''+'') @ natToString (nat \<bar>e\<bar>)
               in if k = 1 then ds @ ''e'' @ es else hd ds # ''.'' @ tl ds @ ''e'' @ es))"

definition numToString :: "jsnum \<Rightarrow> string" where
  "numToString x = (case x of
       NaN \<Rightarrow> ''NaN''
     | PInf \<Rightarrow> ''Infinity''
     | NInf \<Rightarrow> ''-Infinity''
     | Fin r \<Rightarrow> if r = 0 then ''0''
                else (if r < 0 then ''-'' else '''') @ posToString \<bar>r\<bar>)"

text \<open>\<open>Number.prototype.toFixed(d)\<close>: on a tie the larger integer is taken.\<close>

definition toFixed :: "nat \<Rightarrow> jsnum \<Rightarrow> string" where
  "toFixed d x = (case x of
       NaN \<Rightarrow> ''NaN''
     | PInf \<Rightarrow> ''Infinity''
     | NInf \<Rightarrow> ''-Infinity''
     | Fin r \<Rightarrow>
         if 10 ^ 21 \<le> \<bar>r\<bar> then numToString x
         else (let m = padStart (d + 1) CHR ''0'' (natToString (nat \<lfloor>\<bar>r\<bar> * 10 ^ d + 1 / 2\<rfloor>));
                   body = (if d = 0 then m
                           else take (length m - d) m @ ''.'' @ drop (length m - d) m)
               in (if r < 0 then ''-'' else '''') @ body))"

text \<open>
  \<open>parseFloat\<close>: leading white space is skipped and the longest prefix that is a
  decimal literal is read; \<open>NaN\<close> when there is none.  It never throws.
\<close>

definition isSpace :: "char \<Rightarrow> bool" where
  "isSpace c = (c \<in> set [CHR '' '', CHR 0x09, CHR 0x0A, CHR 0x0B, CHR 0x0C, CHR 0x0D])"

definition splitSign :: "string \<Rightarrow> real \<times> string" where
  "splitSign s = (case s of
       [] \<Rightarrow> (1, [])
     | c # r \<Rightarrow> if c = CHR ''-'' then (- 1, r) else if c = CHR ''+'' then (1, r) else (1, s))"

definition parseExponent :: "string \<Rightarrow> int" where
  "parseExponent s = (case s of
       [] \<Rightarrow> 0
     | c # r \<Rightarrow>
         if c = CHR ''e'' \<or> c = CHR ''E'' then
           (let (sg, t) = splitSign r; ds = takeWhile isDigit t
            in if ds = [] then 0 else (if sg < 0 then - int (parseNat ds) else int (parseNat ds)))
         else 0)"

definition parseFloat :: "string \<Rightarrow> jsnum" where
  "parseFloat str =
     (let (sg, u) = splitSign (dropWhile isSpace str) in
      if take 8 u = ''Infinity'' then (if sg < 0 then NInf else PInf)
      else (let ip = takeWhile isDigit u;
                r1 = dropWhile isDigit u;
                hasDot = (r1 \<noteq> [] \<and> hd r1 = CHR ''.'');
                fp = (if hasDot then takeWhile isDigit (tl r1) else []);
                r2 = (if hasDot then dropWhile isDigit (tl r1) else r1)
            in if ip = [] \<and> fp = [] then NaN
               else round64 (sg * (of_nat (parseNat ip) + of_nat (parseNat fp) / 10 ^ length fp)
                             * pow10 (parseExponent r2))))"

text \<open>\<open>parseInt\<close> without a radix: decimal digits, or hexadecimal ones after \<open>0x\<close>.\<close>

definition hexVal :: "char \<Rightarrow> nat option" where
  "hexVal c = (if isDigit c then Some (digitVal c)
               else if c \<in> set ''abcdef'' then Some (of_char c - 87)
               else if c \<in> set ''ABCDEF'' then Some (of_char c - 55)
               else None)"

definition parseInt :: "string \<Rightarrow> jsnum" where
  "parseInt str =
     (let (sg, u) = splitSign (dropWhile isSpace str) in
      if take 2 u = ''0x'' \<or> take 2 u = ''0X'' then
        (let hs = takeWhile (\<lambda>c. hexVal c \<noteq> None) (drop 2 u) in
         if hs = [] then NaN
         else round64 (sg * of_nat (foldl (\<lambda>acc c. 16 * acc + (case hexVal c of None \<Rightarrow> 0 | Some v \<Rightarrow> v)) 0 hs)))
      else (let ds = takeWhile isDigit u in
            if ds = [] then NaN else round64 (sg * of_nat (parseNat ds))))"

section \<open>Dates\<close>

text \<open>
  A valid \<open>Date\<close> is modelled by its calendar fields in UTC; \<open>None\<close> is
  \<open>Invalid Date\<close>.  The local time zone of the running process is a fixed offset
  \<open>tz\<close>, in minutes east of UTC.
\<close>

record civil =
  yr :: int
  mo :: int
  dy :: int
  hh :: int
  mn :: int
  sc :: int
  msec :: int

definition isLeap :: "int \<Rightarrow> bool" where
  "isLeap y = ((y mod 4 = 0 \<and> y mod 100 \<noteq> 0) \<or> y mod 400 = 0)"

definition daysIn :: "int \<Rightarrow> int \<Rightarrow> int" where
  "daysIn y m = (if m = 2 then (if isLeap y then 29 else 28)
                 else if m = 4 \<or> m = 6 \<or> m = 9 \<or> m = 11 then 30 else 31)"

definition nextDay :: "int \<times> int \<times> int \<Rightarrow> int \<times> int \<times> int" where
  "nextDay c = (case c of (y, m, d) \<Rightarrow>
     if d < daysIn y m then (y, m, d + 1) else if m < 12 then (y, m + 1, 1) else (y + 1, 1, 1))"

definition prevDay :: "int \<times> int \<times> int \<Rightarrow> int \<times> int \<times> int" where
  "prevDay c = (case c of (y, m, d) \<Rightarrow>
     if 1 < d then (y, m, d - 1) else if 1 < m then (y, m - 1, daysIn y (m - 1))
     else (y - 1, 12, 31))"

function addDays :: "int \<Rightarrow> int \<times> int \<times> int \<Rightarrow> int \<times> int \<times> int" where
  "addDays n c = (if n = 0 then c else if 0 < n then addDays (n - 1) (nextDay c)
                  else addDays (n + 1) (prevDay c))"
  by pat_completeness auto
termination
  by (relation "measure (\<lambda>(n, c). nat \<bar>n\<bar>)") auto

declare addDays.simps [simp del]

text \<open>\<open>new Date(year, monthIndex, day, hours, minutes, seconds)\<close>: the fields are local time.\<close>

definition newDate :: "int \<Rightarrow> int \<Rightarrow> int \<Rightarrow> int \<Rightarrow> int \<Rightarrow> int \<Rightarrow> int \<Rightarrow> civil" where
  "newDate tz year monthIndex day hours minutes seconds =
     (let y = (if 0 \<le> year \<and> year \<le> 99 then 1900 + year else year);
          secs = hours * 3600 + minutes * 60 + seconds - tz * 60;
          r = secs mod 86400
      in case addDays (day - 1 + secs div 86400) (y + monthIndex div 12, monthIndex mod 12 + 1, 1) of
           (y', m', d') \<Rightarrow>
             \<lparr>yr = y', mo = m', dy = d', hh = r div 3600, mn = r mod 3600 div 60,
              sc = r mod 60, msec = 0\<rparr>)"

definition localTime :: "int \<Rightarrow> civil \<Rightarrow> civil" where
  "localTime tz c =
     (let secs = hh c * 3600 + mn c * 60 + sc c + tz * 60;
          r = secs mod 86400
      in case addDays (secs div 86400) (yr c, mo c, dy c) of
           (y', m', d') \<Rightarrow>
             c\<lparr>yr := y', mo := m', dy := d', hh := r div 3600, mn := r mod 3600 div 60,
               sc := r mod 60\<rparr>)"

definition getFullYear :: "int \<Rightarrow> civil option \<Rightarrow> jsint" where
  "getFullYear tz d = map_option (\<lambda>c. yr (localTime tz c)) d"

definition getMonth :: "int \<Rightarrow> civil option \<Rightarrow> jsint" where
  "getMonth tz d = map_option (\<lambda>c. mo (localTime tz c) - 1) d"

definition getDate :: "int \<Rightarrow> civil \<Rightarrow> int" where
  "getDate tz c = dy (localTime tz c)"

definition pad :: "nat \<Rightarrow> int \<Rightarrow> string" where
  "pad n i = padStart n CHR ''0'' (natToString (nat i))"

definition toISOString :: "civil \<Rightarrow> string" where
  "toISOString c =
     (if 0 \<le> yr c \<and> yr c \<le> 9999 then pad 4 (yr c)
      else (if yr c < 0 then ''-'' else ''+'') @ pad 6 \<bar>yr c\<bar>)
     @ ''-'' @ pad 2 (mo c) @ ''-'' @ pad 2 (dy c) @ ''T'' @ pad 2 (hh c) @ '':'' @ pad 2 (mn c)
     @ '':'' @ pad 2 (sc c) @ ''.'' @ pad 3 (msec c) @ ''Z''"

text \<open>
  \<open>new Date(string)\<close> on the date-time string format of ECMAScript, as V8 reads it: a
  year of four digits, or of six digits after a sign; then optionally \<open>-MM\<close> and \<open>-DD\<close>;
  then optionally \<open>T\<close>, hours and minutes, optionally seconds, optionally a fraction of
  a second; then optionally \<open>Z\<close> or an offset \<open>\<plusminus>hh:mm\<close> or \<open>\<plusminus>hhmm\<close>.  A date
  without a time is UTC; a time without an offset is local time.  A day number up to 31
  is accepted in every month and carried over, and the hour 24 is accepted in
  \<open>24:00:00\<close>.  A time outside the range of \<open>Date\<close> is \<open>Invalid Date\<close>.

  Every string outside this format is \<open>Invalid Date\<close> here; of those, V8 reads some
  with the rules of its older parser, which are not modelled.
\<close>

text \<open>The digits at the front of the text when they are exactly \<open>n\<close>.\<close>

definition digitsAt :: "nat \<Rightarrow> string \<Rightarrow> (int \<times> string) option" where
  "digitsAt n s =
     (if length (takeWhile isDigit s) = n then Some (int (parseNat (take n s)), drop n s)
      else None)"

definition isoYear :: "string \<Rightarrow> (int \<times> string) option" where
  "isoYear s = (case s of
       [] \<Rightarrow> None
     | c # r \<Rightarrow>
         if c = CHR ''+'' then digitsAt 6 r
         else if c = CHR ''-''
         then (case digitsAt 6 r of
                 None \<Rightarrow> None
               | Some (y, t) \<Rightarrow> if y = 0 then None else Some (- y, t))
         else digitsAt 4 s)"

text \<open>The month or the day: two digits after \<open>-\<close>, or absent and then 1.\<close>

definition isoField :: "string \<Rightarrow> (int \<times> string) option" where
  "isoField s = (case s of
       [] \<Rightarrow> Some (1, [])
     | c # r \<Rightarrow> if c = CHR ''-'' then digitsAt 2 r else Some (1, s))"

text \<open>The fraction of a second is read to the millisecond.\<close>

definition isoSeconds :: "string \<Rightarrow> ((int \<times> int) \<times> string) option" where
  "isoSeconds s = (case s of
       [] \<Rightarrow> Some ((0, 0), [])
     | c # r \<Rightarrow>
         if c = CHR '':''
         then (case digitsAt 2 r of
                 None \<Rightarrow> None
               | Some (se, t) \<Rightarrow>
                   (case t of
                      [] \<Rightarrow> Some ((se, 0), [])
                    | c' # u \<Rightarrow>
                        if c' = CHR ''.''
                        then (let fr = takeWhile isDigit u
                              in if fr = [] then None
                                 else Some ((se, int (parseNat (take 3 (fr @ ''00'')))),
                                            dropWhile isDigit u))
                        else Some ((se, 0), t)))
         else Some ((0, 0), s))"

definition isoTime :: "string \<Rightarrow> ((int \<times> int \<times> int \<times> int) \<times> string) option" where
  "isoTime s = (case digitsAt 2 s of
       None \<Rightarrow> None
     | Some (h, s1) \<Rightarrow>
         (case s1 of
            [] \<Rightarrow> None
          | c # s2 \<Rightarrow>
              if c = CHR '':''
              then (case digitsAt 2 s2 of
                      None \<Rightarrow> None
                    | Some (mi, s3) \<Rightarrow>
                        (case isoSeconds s3 of
                           None \<Rightarrow> None
                         | Some ((se, ms), s4) \<Rightarrow> Some ((h, mi, se, ms), s4)))
              else None))"

text \<open>
  The offset in minutes east of UTC; \<open>Some None\<close> when the text has none, \<open>None\<close> when
  the text is not well formed.
\<close>

definition isoZone :: "string \<Rightarrow> int option option" where
  "isoZone s = (case s of
       [] \<Rightarrow> Some None
     | c # r \<Rightarrow>
         if c = CHR ''Z'' \<or> c = CHR ''z'' then (if r = [] then Some (Some 0) else None)
         else if c = CHR ''+'' \<or> c = CHR ''-''
         then (let sg = (if c = CHR ''-'' then - 1 else 1)
               in case digitsAt 4 r of
                    Some (hm, t) \<Rightarrow>
                      if t = [] \<and> hm div 100 \<le> 23 \<and> hm mod 100 \<le> 59
                      then Some (Some (sg * (60 * (hm div 100) + hm mod 100)))
                      else None
                  | None \<Rightarrow>
                      (case digitsAt 2 r of
                         None \<Rightarrow> None
                       | Some (h, t) \<Rightarrow>
                           (case t of
                              [] \<Rightarrow> None
                            | c' # u \<Rightarrow>
                                if c' = CHR '':''
                                then (case digitsAt 2 u of
                                        None \<Rightarrow> None
                                      | Some (m, v) \<Rightarrow>
                                          if v = [] \<and> h \<le> 23 \<and> m \<le> 59
                                          then Some (Some (sg * (60 * h + m)))
                                          else None)
                                else None)))
         else None)"

text \<open>
  The range of \<open>Date\<close>: \<open>8.64e15\<close> milliseconds on either side of 1970, that is from
  20 April \<open>-271821\<close> to 13 September 275760, both at 00:00:00 UTC.
\<close>

definition notAfter :: "int \<times> int \<times> int \<times> int \<Rightarrow> int \<times> int \<times> int \<times> int \<Rightarrow> bool" where
  "notAfter a b = (case a of (y, m, d, t) \<Rightarrow> (case b of (y', m', d', t') \<Rightarrow>
     y < y' \<or> (y = y' \<and> (m < m' \<or> (m = m' \<and> (d < d' \<or> (d = d' \<and> t \<le> t')))))))"

definition timeClip :: "civil \<Rightarrow> civil option" where
  "timeClip c =
     (let t = (yr c, mo c, dy c, hh c * 3600000 + mn c * 60000 + sc c * 1000 + msec c)
      in if notAfter (- 271821, 4, 20, 0) t \<and> notAfter t (275760, 9, 13, 0) then Some c else None)"

text \<open>The date of the fields when they are the time at \<open>off\<close> minutes east of UTC.\<close>

definition makeDate :: "int \<Rightarrow> int \<Rightarrow> int \<Rightarrow> int \<Rightarrow> int \<Rightarrow> int \<Rightarrow> int \<Rightarrow> int \<Rightarrow> civil option" where
  "makeDate y m d h mi se ms off =
     (let secs = h * 3600 + mi * 60 + se - off * 60;
          r = secs mod 86400
      in case addDays (d - 1 + secs div 86400) (y, m, 1) of
           (y', m', d') \<Rightarrow>
             timeClip \<lparr>yr = y', mo = m', dy = d', hh = r div 3600, mn = r mod 3600 div 60,
                       sc = r mod 60, msec = ms\<rparr>)"

definition parseDate :: "int \<Rightarrow> string \<Rightarrow> civil option" where
  "parseDate tz s = (case isoYear s of
       None \<Rightarrow> None
     | Some (y, s1) \<Rightarrow>
         (case isoField s1 of
            None \<Rightarrow> None
          | Some (m, s2) \<Rightarrow>
              (case isoField s2 of
                 None \<Rightarrow> None
               | Some (d, s3) \<Rightarrow>
                   if 1 \<le> m \<and> m \<le> 12 \<and> 1 \<le> d \<and> d \<le> 31
                   then (case s3 of
                           [] \<Rightarrow> makeDate y m d 0 0 0 0 0
                         | c # s4 \<Rightarrow>
                             if c = CHR ''T'' \<or> c = CHR ''t''
                             then (case isoTime s4 of
                                     None \<Rightarrow> None
                                   | Some ((h, mi, se, ms), s5) \<Rightarrow>
                                       (case isoZone s5 of
                                          None \<Rightarrow> None
                                        | Some z \<Rightarrow>
                                            if mi \<le> 59 \<and> se \<le> 59
                                               \<and> (h \<le> 23 \<or> (h = 24 \<and> mi = 0 \<and> se = 0 \<and> ms = 0))
                                            then makeDate y m d h mi se ms
                                                   (case z of None \<Rightarrow> tz | Some off \<Rightarrow> off)
                                            else None))
                             else None)
                   else None)))"

section \<open>The file system\<close>

record fsys =
  files :: "string \<rightharpoonup> string"
  dirs :: "string set"

datatype failure = NotFound string | IOFailure | TypeError

definition existsSync :: "fsys \<Rightarrow> string \<Rightarrow> bool" where
  "existsSync fs p = (files fs p \<noteq> None \<or> p \<in> dirs fs)"

text \<open>\<open>path.dirname\<close> for POSIX paths.\<close>

definition dirname :: "string \<Rightarrow> string" where
  "dirname p = (case p of
       [] \<Rightarrow> ''.''
     | c # cs \<Rightarrow>
         (let r = dropWhile (\<lambda>x. x \<noteq> CHR ''/'') (dropWhile (\<lambda>x. x = CHR ''/'') (rev cs))
          in if r = [] then (if c = CHR ''/'' then ''/'' else ''.'')
             else if c = CHR ''/'' \<and> length r = 1 then ''//''
             else c # rev (tl r)))"

text \<open>
  \<open>mkdirSync(d, {recursive: true})\<close> makes the directory and those of its ancestors that
  are missing; it throws when one of them is a regular file.
\<close>

fun ancestors :: "nat \<Rightarrow> string \<Rightarrow> string list" where
  "ancestors 0 p = [p]"
| "ancestors (Suc n) p = (if dirname p = p then [p] else p # ancestors n (dirname p))"

definition mkdirSync :: "fsys \<Rightarrow> string \<Rightarrow> fsys option" where
  "mkdirSync fs d =
     (let ps = ancestors (length d) d
      in if list_ex (\<lambda>p. files fs p \<noteq> None) ps then None
         else Some (fs\<lparr>dirs := dirs fs \<union> set ps\<rparr>))"

text \<open>
  Paths are taken as they are written, and \<open>dirs\<close> holds every path that names a
  directory.  Writing a file creates it or replaces its content.  It throws when the
  path is empty or ends with \<open>/\<close>, when the parent of the path is not a directory, and
  when the path names a directory.
\<close>

definition writeFileSync :: "fsys \<Rightarrow> string \<Rightarrow> string \<Rightarrow> fsys option" where
  "writeFileSync fs p content =
     (if p \<noteq> [] \<and> last p \<noteq> CHR ''/'' \<and> dirname p \<in> dirs fs \<and> p \<notin> dirs fs
      then Some (fs\<lparr>files := (files fs)(p \<mapsto> content)\<rparr>)
      else None)"

text \<open>\<open>createWriteStream(p, {flags: 'w'})\<close> opens the file, empty.\<close>

definition createWriteStream :: "fsys \<Rightarrow> string \<Rightarrow> fsys option" where
  "createWriteStream fs p = writeFileSync fs p []"

section \<open>The generator (generator.ts)\<close>

record SalesRecord =
  id' :: jsnum
  order_id :: jsnum
  customer_id :: jsnum
  total :: jsnum
  date :: string

text \<open>
  \<open>Math.random()\<close> is the sequence \<open>rand\<close> of its successive results; the functions
  below take the result they consume, and the position in the sequence is threaded
  through the batch loop.
\<close>

definition randomInt :: "int \<Rightarrow> int \<Rightarrow> real \<Rightarrow> int" where
  "randomInt lo hi r = \<lfloor>fl (r * of_int (hi - lo + 1))\<rfloor> + lo"

definition randomFloat :: "real \<Rightarrow> real \<Rightarrow> nat \<Rightarrow> real \<Rightarrow> jsnum" where
  "randomFloat lo hi decimals r =
     (let value = jadd (jmul (Fin r) (jsub (Fin hi) (Fin lo))) (Fin lo)
      in parseFloat (toFixed decimals value))"

definition randomDate :: "int \<Rightarrow> (nat \<Rightarrow> real) \<Rightarrow> nat \<Rightarrow> string" where
  "randomDate tz rand p =
     (let startYear = 2020;
          endYear = 2025;
          year = randomInt startYear endYear (rand p);
          month = randomInt 1 12 (rand (p + 1));
          daysInMonth = getDate tz (newDate tz year month 0 0 0 0);
          day = randomInt 1 daysInMonth (rand (p + 2));
          hour = randomInt 0 23 (rand (p + 3));
          minute = randomInt 0 59 (rand (p + 4));
          second = randomInt 0 59 (rand (p + 5))
      in toISOString (newDate tz year (month - 1) day hour minute second))"

definition genRecord :: "int \<Rightarrow> (nat \<Rightarrow> real) \<Rightarrow> int \<Rightarrow> nat \<Rightarrow> SalesRecord" where
  "genRecord tz rand n p =
     \<lparr>id' = ofInt n,
      order_id = ofInt (randomInt 100000 999999 (rand p)),
      customer_id = ofInt (randomInt 1 50000 (rand (p + 1))),
      total = randomFloat 500 1800 2 (rand (p + 2)),
      date = randomDate tz rand (p + 3)\<rparr>"

function generateBatch_loop ::
  "int \<Rightarrow> (nat \<Rightarrow> real) \<Rightarrow> int \<Rightarrow> int \<Rightarrow> int \<Rightarrow> SalesRecord list \<Rightarrow> nat \<Rightarrow> SalesRecord list \<times> nat"
where
  "generateBatch_loop tz rand startId count' i records p =
     (if i < count'
      then generateBatch_loop tz rand startId count' (i + 1)
             (records @ [genRecord tz rand (startId + i) p]) (p + 9)
      else (records, p))"
  by pat_completeness auto
termination
  by (relation "measure (\<lambda>(tz, rand, startId, count', i, records, p). nat (count' - i))") auto

declare generateBatch_loop.simps [simp del]

definition generateBatch ::
  "int \<Rightarrow> (nat \<Rightarrow> real) \<Rightarrow> int \<Rightarrow> int \<Rightarrow> nat \<Rightarrow> SalesRecord list \<times> nat" where
  "generateBatch tz rand startId count' p = generateBatch_loop tz rand startId count' 0 [] p"

definition csvHeader :: string where
  "csvHeader = ''id,order_id,customer_id,total,date'' @ [CHR 0x0A]"

definition recordLine :: "SalesRecord \<Rightarrow> string" where
  "recordLine r = numToString (id' r) @ '','' @ numToString (order_id r) @ '',''
     @ numToString (customer_id r) @ '','' @ numToString (total r) @ '','' @ date r @ [CHR 0x0A]"

definition recordsToCSV :: "SalesRecord list \<Rightarrow> bool \<Rightarrow> string" where
  "recordsToCSV records includeHeader =
     foldl (\<lambda>csv r. csv @ recordLine r) (if includeHeader then csvHeader else []) records"

text \<open>
  The \<open>while\<close> loop of \<open>generate\<close>; \<open>out\<close> is what has been written to the stream.
  The loop does not end when \<open>batchSize\<close> is not positive, so its result is an option.
\<close>

partial_function (option) generate_loop ::
  "int \<Rightarrow> (nat \<Rightarrow> real) \<Rightarrow> int \<Rightarrow> int \<Rightarrow> int \<Rightarrow> string \<Rightarrow> nat \<Rightarrow> (string \<times> nat) option"
where
  "generate_loop tz rand totalRecords batchSize processed out p =
     (if processed < totalRecords
      then (let remainingRecords = totalRecords - processed;
                currentBatchSize = min batchSize remainingRecords;
                batch = generateBatch tz rand (processed + 1) currentBatchSize p;
                csvData = recordsToCSV (fst batch) False
            in generate_loop tz rand totalRecords batchSize (processed + currentBatchSize)
                 (out @ csvData) (snd batch))
      else Some (out, p))"

text \<open>
  \<open>generate\<close> fails when the directory cannot be made or the stream cannot be opened;
  otherwise the file holds what the loop has written, provided the loop ends.
\<close>

definition generate ::
  "int \<Rightarrow> (nat \<Rightarrow> real) \<Rightarrow> string \<Rightarrow> int \<Rightarrow> int \<Rightarrow> fsys \<Rightarrow> ((failure + unit) \<times> fsys) option" where
  "generate tz rand outputPath totalRecords batchSize fs =
     (let dir = dirname outputPath
      in case (if \<not> existsSync fs dir then mkdirSync fs dir else Some fs) of
           None \<Rightarrow> Some (Inl IOFailure, fs)
         | Some fs1 \<Rightarrow>
             (case createWriteStream fs1 outputPath of
                None \<Rightarrow> Some (Inl IOFailure, fs1)
              | Some fs2 \<Rightarrow>
                  (case generate_loop tz rand totalRecords batchSize 0 csvHeader 0 of
                     None \<Rightarrow> None
                   | Some (out, p) \<Rightarrow>
                       Some (Inr (), fs2\<lparr>files := (files fs2)(outputPath \<mapsto> out)\<rparr>))))"

section \<open>The aggregator (main.ts)\<close>

record SalesStats =
  year :: jsint
  month :: jsint
  numberOfOrders :: nat
  maxAmount :: jsnum
  minAmount :: jsnum
  totalAmount :: jsnum
  salesAverage :: jsnum
  standardDeviation :: jsnum
  amounts :: "jsnum list option"

text \<open>
  The key-ordered \<open>Map\<close> is an association list in insertion order; \<open>amounts\<close> is
  \<open>None\<close> once \<open>finalizeStats\<close> has deleted the property.
\<close>

record SalesProcessor =
  inputPath :: string
  outputPath :: string
  monthlyStats :: "(string \<times> SalesStats) list"

definition newSalesProcessor :: "string \<Rightarrow> string \<Rightarrow> SalesProcessor" where
  "newSalesProcessor inp outp = \<lparr>inputPath = inp, outputPath = outp, monthlyStats = []\<rparr>"

definition getMonthName :: "jsint \<Rightarrow> string option" where
  "getMonthName m = (case m of
       None \<Rightarrow> None
     | Some i \<Rightarrow>
         if 1 \<le> i \<and> i \<le> 12
         then Some ([''January'', ''February'', ''March'', ''April'', ''May'', ''June'', ''July'',
                     ''August'', ''September'', ''October'', ''November'', ''December'']
                    ! nat (i - 1))
         else None)"

definition calculateStandardDeviation :: "jsnum list \<Rightarrow> jsnum \<Rightarrow> jsnum" where
  "calculateStandardDeviation values mean =
     (if length values \<le> 1 then Fin 0
      else (let squaredDifferences = map (\<lambda>v. Math_pow2 (jsub v mean)) values;
                variance = jdiv (foldl (\<lambda>sum sqDiff. jadd sum sqDiff) (Fin 0) squaredDifferences)
                                (ofNat (length values - 1))
            in Math_sqrt variance))"

definition recordKey :: "int \<Rightarrow> SalesRecord \<Rightarrow> string" where
  "recordKey tz record =
     (let d = parseDate tz (date record);
          y = getFullYear tz d;
          m = map_option (\<lambda>i. i + 1) (getMonth tz d)
      in jsintToString y @ ''-'' @ padStart 2 CHR ''0'' (jsintToString m))"

text \<open>
  \<open>processSalesRecord\<close> returns whether it threw, and the map as the call left it: on
  a bucket whose \<open>amounts\<close> are gone, \<open>push\<close> throws after the four updates.
\<close>

definition processSalesRecord ::
  "int \<Rightarrow> SalesRecord \<Rightarrow> (string \<times> SalesStats) list \<Rightarrow> bool \<times> (string \<times> SalesStats) list" where
  "processSalesRecord tz record ms =
     (let d = parseDate tz (date record);
          y = getFullYear tz d;
          m = map_option (\<lambda>i. i + 1) (getMonth tz d);
          key = recordKey tz record;
          ms1 = (if map_of ms key = None
                 then AList.update key
                        \<lparr>year = y, month = m, numberOfOrders = 0, maxAmount = total record,
                         minAmount = total record, totalAmount = Fin 0, salesAverage = Fin 0,
                         standardDeviation = Fin 0, amounts = Some []\<rparr> ms
                 else ms)
      in case map_of ms1 key of
           None \<Rightarrow> (True, ms1)
         | Some stats \<Rightarrow>
             (let stats1 = stats\<lparr>numberOfOrders := numberOfOrders stats + 1,
                                 totalAmount := jadd (totalAmount stats) (total record),
                                 maxAmount := Math_max (maxAmount stats) (total record),
                                 minAmount := Math_min (minAmount stats) (total record)\<rparr>
              in case amounts stats1 of
                   None \<Rightarrow> (True, AList.update key stats1 ms1)
                 | Some xs \<Rightarrow>
                     (False, AList.update key (stats1\<lparr>amounts := Some (xs @ [total record])\<rparr>) ms1)))"

text \<open>
  A row as the CSV stream delivers it: a map from header to cell.  A missing cell reads
  as \<open>undefined\<close>.
\<close>

type_synonym rawRecord = "string \<rightharpoonup> string"

definition rawField :: "rawRecord \<Rightarrow> string \<Rightarrow> string" where
  "rawField raw k = (case raw k of None \<Rightarrow> ''undefined'' | Some v \<Rightarrow> v)"

definition toRecord :: "rawRecord \<Rightarrow> SalesRecord" where
  "toRecord rawRecord =
     \<lparr>id' = parseInt (rawField rawRecord ''id''),
      order_id = parseInt (rawField rawRecord ''order_id''),
      customer_id = parseInt (rawField rawRecord ''customer_id''),
      total = parseFloat (rawField rawRecord ''total''),
      date = rawField rawRecord ''date''\<rparr>"

text \<open>
  The \<open>data\<close> handler of \<open>process\<close>.  Its state is the map, \<open>recordsProcessed\<close> and the
  line numbers that the \<open>catch\<close> block has reported.
\<close>

definition onData ::
  "int \<Rightarrow> (string \<times> SalesStats) list \<times> nat \<times> nat list \<Rightarrow> rawRecord
     \<Rightarrow> (string \<times> SalesStats) list \<times> nat \<times> nat list" where
  "onData tz st rawRecord = (case st of (ms, recordsProcessed, reported) \<Rightarrow>
     (case processSalesRecord tz (toRecord rawRecord) ms of
        (threw, ms') \<Rightarrow>
          if threw then (ms', recordsProcessed, reported @ [recordsProcessed + 1])
          else (ms', recordsProcessed + 1, reported)))"

fun finalizeStats :: "(string \<times> SalesStats) list \<Rightarrow> bool \<times> (string \<times> SalesStats) list" where
  "finalizeStats [] = (False, [])"
| "finalizeStats ((key, stats) # rest) =
     (let stats1 = stats\<lparr>salesAverage := jdiv (totalAmount stats) (ofNat (numberOfOrders stats))\<rparr>
      in case amounts stats1 of
           None \<Rightarrow> (True, (key, stats1) # rest)
         | Some values \<Rightarrow>
             (let stats2 = stats1\<lparr>standardDeviation :=
                                     calculateStandardDeviation values (salesAverage stats1),
                                   amounts := None\<rparr>
              in case finalizeStats rest of (threw, rest') \<Rightarrow> (threw, (key, stats2) # rest')))"

definition reportHeader :: string where
  "reportHeader =
     ''year,month,month_name,number_of_orders,max_amount,min_amount,sales_average,standard_deviation''
     @ [CHR 0x0A]"

definition reportLine :: "SalesStats \<Rightarrow> string" where
  "reportLine stats =
     jsintToString (year stats) @ '','' @ jsintToString (month stats) @ '',''
     @ (case getMonthName (month stats) of None \<Rightarrow> ''undefined'' | Some name \<Rightarrow> name) @ '',''
     @ natToString (numberOfOrders stats) @ '','' @ toFixed 2 (maxAmount stats) @ '',''
     @ toFixed 2 (minAmount stats) @ '','' @ toFixed 2 (salesAverage stats) @ '',''
     @ toFixed 2 (standardDeviation stats) @ [CHR 0x0A]"

text \<open>
  The keys consist of digits, \<open>-\<close> and the letters of \<open>NaN\<close>, on which \<open>localeCompare\<close>
  orders strings as the character codes do.
\<close>

definition sortedEntries :: "(string \<times> SalesStats) list \<Rightarrow> (string \<times> SalesStats) list" where
  "sortedEntries ms = sort_key fst ms"

definition statsToCSV :: "(string \<times> SalesStats) list \<Rightarrow> string" where
  "statsToCSV ms =
     foldl (\<lambda>csv entry. csv @ reportLine (snd entry)) reportHeader (sortedEntries ms)"

text \<open>
  The rows that \<open>csv-parser\<close> delivers for the bytes of a file, with the options of
  the program: separator \<open>,\<close>, quote and escape \<open>"\<close>, headers from the first line and
  passed through \<open>trim\<close>.  The file is taken as one chunk.

  The line break is the first \<open>LF\<close>, or \<open>CR\<close> not followed by \<open>LF\<close>, that stands
  outside quotes (\<open>_transform\<close>).
\<close>

text \<open>\<open>String.prototype.trim\<close>, on the white space of ASCII.\<close>

definition trim :: "string \<Rightarrow> string" where
  "trim s = rev (dropWhile isSpace (rev (dropWhile isSpace s)))"

fun detectNewline :: "bool \<Rightarrow> string \<Rightarrow> char" where
  "detectNewline quoted [] = CHR 0x0A"
| "detectNewline quoted (c # cs) =
     (if c = CHR 0x22 then detectNewline (\<not> quoted) cs
      else if quoted then detectNewline quoted cs
      else if c = CHR 0x0A then CHR 0x0A
      else if c = CHR 0x0D \<and> (cs = [] \<or> hd cs \<noteq> CHR 0x0A) then CHR 0x0D
      else detectNewline quoted cs)"

text \<open>
  The lines: the text is cut at every line break outside quotes, and a last line
  without a line break is kept when it is not empty (\<open>_flush\<close>).
\<close>

fun csvLines :: "char \<Rightarrow> bool \<Rightarrow> string \<Rightarrow> string \<Rightarrow> string list" where
  "csvLines nl quoted cur [] = (if cur = [] then [] else [rev cur])"
| "csvLines nl quoted cur (c # cs) =
     (if c = CHR 0x22 then csvLines nl (\<not> quoted) (c # cur) cs
      else if \<not> quoted \<and> c = nl then rev cur # csvLines nl quoted [] cs
      else csvLines nl quoted (c # cur) cs)"

text \<open>
  \<open>parseCell\<close> removes the quotes around a quoted cell and reads \<open>""\<close> as one quote.
\<close>

fun unescape :: "string \<Rightarrow> string" where
  "unescape (c # d # cs) =
     (if c = CHR 0x22 \<and> d = CHR 0x22 then d # unescape cs else c # unescape (d # cs))"
| "unescape cs = cs"

definition parseCell :: "string \<Rightarrow> string" where
  "parseCell raw =
     unescape (if raw \<noteq> [] \<and> hd raw = CHR 0x22 \<and> last raw = CHR 0x22 then butlast (tl raw)
               else raw)"

text \<open>
  The loop of \<open>parseLine\<close> cuts a line at the commas outside quotes; a quote opens a
  quoted stretch, a quote before a comma closes it, and inside it a quote before a quote
  is skipped together with its successor.
\<close>

fun parseLine_loop :: "bool \<Rightarrow> string \<Rightarrow> string \<Rightarrow> string list" where
  "parseLine_loop isQuoted cur [] = (if cur = [] then [] else [rev cur])"
| "parseLine_loop isQuoted cur [c] =
     (if c = CHR 0x22 \<and> \<not> isQuoted then parseLine_loop (\<not> isQuoted) (c # cur) []
      else if c = CHR '','' \<and> \<not> isQuoted then rev cur # parseLine_loop isQuoted [] []
      else parseLine_loop isQuoted (c # cur) [])"
| "parseLine_loop isQuoted cur (c # d # cs) =
     (if c = CHR 0x22 \<and> (\<not> isQuoted \<or> d = CHR '','')
      then parseLine_loop (\<not> isQuoted) (c # cur) (d # cs)
      else if isQuoted \<and> c = CHR 0x22 \<and> d = CHR 0x22
      then parseLine_loop isQuoted (d # c # cur) cs
      else if c = CHR '','' \<and> \<not> isQuoted then rev cur # parseLine_loop isQuoted [] (d # cs)
      else parseLine_loop isQuoted (c # cur) (d # cs))"

text \<open>
  \<open>parseLine\<close> drops a \<open>CR\<close> at the end of the line; a line that ends with a comma
  has an empty last cell, and an empty line has no cell.  (When the line break is \<open>CR\<close>,
  the library takes the line break before an empty line for that \<open>CR\<close>, and then
  looks for the comma at the end of the line before: \<open>prev\<close>.)
\<close>

definition parseLine :: "char \<Rightarrow> string \<Rightarrow> string \<Rightarrow> string list" where
  "parseLine nl prev line =
     (if line = []
      then (if nl = CHR 0x0D \<and> prev \<noteq> [] \<and> last prev = CHR '','' then [[]] else [])
      else (let l = (if last line = CHR 0x0D then butlast line else line)
            in map parseCell (parseLine_loop False [] l)
               @ (if l \<noteq> [] \<and> last l = CHR '','' then [[]] else [])))"

text \<open>
  \<open>writeRow\<close>: the object that maps each header to the cell of its column, a later
  column replacing an earlier one of the same name; a cell beyond the headers goes under
  \<open>_\<close> and its index.  A column without a cell is \<open>undefined\<close>.
\<close>

definition writeRow :: "string list \<Rightarrow> string list \<Rightarrow> rawRecord" where
  "writeRow headers cells =
     map_of (rev (zip (headers @ map (\<lambda>i. CHR ''_'' # natToString i) [length headers ..< length cells])
                      cells))"

text \<open>
  The first line gives the headers; every other line, an empty one too, gives a row.
\<close>

definition csv_parser :: "string \<Rightarrow> rawRecord list" where
  "csv_parser content =
     (let nl = detectNewline False content
      in case csvLines nl False [] content of
           [] \<Rightarrow> []
         | h # rows \<Rightarrow>
             (let headers = map trim (parseLine nl [] h)
              in map (\<lambda>(prev, l). writeRow headers (parseLine nl prev l)) (zip (h # rows) rows)))"

record outcome =
  result :: "failure + unit"
  processor :: SalesProcessor
  fsAfter :: fsys
  reportedLines :: "nat list"

definition process :: "int \<Rightarrow> SalesProcessor \<Rightarrow> fsys \<Rightarrow> outcome" where
  "process tz sp fs =
     (if \<not> existsSync fs (inputPath sp)
      then \<lparr>result = Inl (NotFound (''Input file not found: '' @ inputPath sp)),
            processor = sp, fsAfter = fs, reportedLines = []\<rparr>
      else (case files fs (inputPath sp) of
              None \<Rightarrow> \<lparr>result = Inl IOFailure, processor = sp, fsAfter = fs, reportedLines = []\<rparr>
            | Some content \<Rightarrow>
                (case foldl (onData tz) (monthlyStats sp, 0, []) (csv_parser content) of
                   (ms1, recordsProcessed, reported) \<Rightarrow>
                     (case finalizeStats ms1 of
                        (threw, ms2) \<Rightarrow>
                          (let sp2 = sp\<lparr>monthlyStats := ms2\<rparr> in
                           if threw
                           then \<lparr>result = Inl TypeError, processor = sp2, fsAfter = fs,
                                 reportedLines = reported\<rparr>
                           else (let csvContent = statsToCSV ms2;
                                     dir = dirname (outputPath sp)
                                 in case (if \<not> existsSync fs dir then mkdirSync fs dir
                                          else Some fs) of
                                      None \<Rightarrow>
                                        \<lparr>result = Inl IOFailure, processor = sp2, fsAfter = fs,
                                         reportedLines = reported\<rparr>
                                    | Some fs1 \<Rightarrow>
                                        (case writeFileSync fs1 (outputPath sp) csvContent of
                                           None \<Rightarrow>
                                             \<lparr>result = Inl IOFailure, processor = sp2,
                                              fsAfter = fs1, reportedLines = reported\<rparr>
                                         | Some fs2 \<Rightarrow>
                                             \<lparr>result = Inr (), processor = sp2, fsAfter = fs2,
                                              reportedLines = reported\<rparr>)))))))"

record summary =
  totalMonths :: nat
  yearRange :: string
  totalRecordsProcessed :: nat

text \<open>\<open>Math.min\<close> and \<open>Math.max\<close> over the years: \<open>NaN\<close> as soon as one year is.\<close>

definition jsintMin :: "jsint \<Rightarrow> jsint \<Rightarrow> jsint" where
  "jsintMin a b = (case a of None \<Rightarrow> None
                   | Some x \<Rightarrow> (case b of None \<Rightarrow> None | Some y \<Rightarrow> Some (min x y)))"

definition jsintMax :: "jsint \<Rightarrow> jsint \<Rightarrow> jsint" where
  "jsintMax a b = (case a of None \<Rightarrow> None
                   | Some x \<Rightarrow> (case b of None \<Rightarrow> None | Some y \<Rightarrow> Some (max x y)))"

definition getStats :: "SalesProcessor \<Rightarrow> summary" where
  "getStats sp =
     (if length (monthlyStats sp) = 0
      then \<lparr>totalMonths = 0, yearRange = [], totalRecordsProcessed = 0\<rparr>
      else (let years = map (\<lambda>e. year (snd e)) (monthlyStats sp);
                minYear = foldl jsintMin (hd years) (tl years);
                maxYear = foldl jsintMax (hd years) (tl years);
                totalRecords = foldl (\<lambda>sum e. sum + numberOfOrders (snd e)) 0 (monthlyStats sp)
            in \<lparr>totalMonths = length (monthlyStats sp),
                yearRange = (if minYear \<noteq> None \<and> minYear = maxYear then jsintToString minYear
                             else jsintToString minYear @ ''-'' @ jsintToString maxYear),
                totalRecordsProcessed = totalRecords\<rparr>))"

section \<open>Auxiliary notions for the proofs\<close>

text \<open>A calendar date with its month and day in range.\<close>

definition validDate :: "int \<times> int \<times> int \<Rightarrow> bool" where
  "validDate c = (case c of (y, m, d) \<Rightarrow> 1 \<le> m \<and> m \<le> 12 \<and> 1 \<le> d \<and> d \<le> daysIn y m)"

text \<open>Every bucket of the map still retains its amounts (no \<open>finalizeStats\<close> yet).\<close>

definition active :: "(string \<times> SalesStats) list \<Rightarrow> bool" where
  "active ms = list_all (\<lambda>e. amounts (snd e) \<noteq> None) ms"

text \<open>The bucket that folding a record into a bucket (or into none yet) leaves.\<close>

definition folded :: "int \<Rightarrow> SalesRecord \<Rightarrow> SalesStats option \<Rightarrow> SalesStats" where
  "folded tz r b =
     (let s = (case b of
                 None \<Rightarrow>
                   \<lparr>year = getFullYear tz (parseDate tz (date r)),
                    month = map_option (\<lambda>i. i + 1) (getMonth tz (parseDate tz (date r))),
                    numberOfOrders = 0, maxAmount = total r, minAmount = total r,
                    totalAmount = Fin 0, salesAverage = Fin 0, standardDeviation = Fin 0,
                    amounts = Some []\<rparr>
               | Some s \<Rightarrow> s)
      in s\<lparr>numberOfOrders := numberOfOrders s + 1,
           totalAmount := jadd (totalAmount s) (total r),
           maxAmount := Math_max (maxAmount s) (total r),
           minAmount := Math_min (minAmount s) (total r),
           amounts := Some ((case amounts s of None \<Rightarrow> [] | Some xs \<Rightarrow> xs) @ [total r])\<rparr>)"

text \<open>The invariant of an active bucket.\<close>

definition bucketInv :: "SalesStats \<Rightarrow> bool" where
  "bucketInv s = (case amounts s of
       None \<Rightarrow> False
     | Some xs \<Rightarrow>
         numberOfOrders s = length xs
         \<and> list_all (\<lambda>t. jle (minAmount s) t \<and> jle t (maxAmount s)) xs)"

text \<open>The count of a bucket is the number of its retained amounts.\<close>

definition counted :: "(string \<times> SalesStats) list \<Rightarrow> bool" where
  "counted ms = list_all (\<lambda>e. case amounts (snd e) of
       None \<Rightarrow> False | Some xs \<Rightarrow> numberOfOrders (snd e) = length xs) ms"

text \<open>
  Finalization as the specification words it: the average is the total divided by the
  number of orders; the standard deviation is 0 for at most one order, and otherwise
  the square root of the sum of the squared deviations from the average, divided by
  the number of orders less one.
\<close>

definition sampleStdDev :: "nat \<Rightarrow> jsnum list \<Rightarrow> jsnum \<Rightarrow> jsnum" where
  "sampleStdDev n xs avg =
     (if n \<le> 1 then Fin 0
      else Math_sqrt (jdiv (foldl jadd (Fin 0) (map (\<lambda>a. Math_pow2 (jsub a avg)) xs))
                           (ofNat (n - 1))))"

definition finalizedSpec :: "SalesStats \<Rightarrow> SalesStats" where
  "finalizedSpec s =
     (let avg = jdiv (totalAmount s) (ofNat (numberOfOrders s))
      in s\<lparr>salesAverage := avg,
           standardDeviation :=
             sampleStdDev (numberOfOrders s) (case amounts s of None \<Rightarrow> [] | Some xs \<Rightarrow> xs) avg,
           amounts := None\<rparr>)"

text \<open>One step of the fold on an active map, as a function of the parsed record.\<close>

definition foldRecord ::
  "int \<Rightarrow> (string \<times> SalesStats) list \<Rightarrow> SalesRecord \<Rightarrow> (string \<times> SalesStats) list" where
  "foldRecord tz ms r = AList.update (recordKey tz r) (folded tz r (map_of ms (recordKey tz r))) ms"

text \<open>The finalized map that a new processor reaches on the content of an input store.\<close>

definition finalStats :: "int \<Rightarrow> string \<Rightarrow> (string \<times> SalesStats) list" where
  "finalStats tz content =
     map (\<lambda>e. (fst e, finalizedSpec (snd e)))
       (foldl (foldRecord tz) [] (map toRecord (csv_parser content)))"

text \<open>
  The \<open>n\<close> records with the ids \<open>a, a + 1, \<dots>\<close> that the generator makes from position
  \<open>p\<close> of the random sequence on; each record consumes nine random numbers.
\<close>

definition recordsFrom :: "int \<Rightarrow> (nat \<Rightarrow> real) \<Rightarrow> int \<Rightarrow> nat \<Rightarrow> nat \<Rightarrow> SalesRecord list" where
  "recordsFrom tz rand a n p = map (\<lambda>j. genRecord tz rand (a + int j) (p + 9 * j)) [0..<n]"

text \<open>The key of the bucket for a year and a month.\<close>

definition keyOf :: "jsint \<Rightarrow> jsint \<Rightarrow> string" where
  "keyOf y m = jsintToString y @ ''-'' @ padStart 2 CHR ''0'' (jsintToString m)"

text \<open>
  The values of a bucket that do not depend on floating-point sums: year, month, number
  of orders, maximum and minimum.  \<open>reportPrefix\<close> is the part of the report line
  written from them, its first six columns.
\<close>

definition orderFree :: "SalesStats \<Rightarrow> jsint \<times> jsint \<times> nat \<times> jsnum \<times> jsnum" where
  "orderFree s = (year s, month s, numberOfOrders s, maxAmount s, minAmount s)"

definition reportPrefix :: "SalesStats \<Rightarrow> string" where
  "reportPrefix stats =
     jsintToString (year stats) @ '','' @ jsintToString (month stats) @ '',''
     @ (case getMonthName (month stats) of None \<Rightarrow> ''undefined'' | Some name \<Rightarrow> name) @ '',''
     @ natToString (numberOfOrders stats) @ '','' @ toFixed 2 (maxAmount stats) @ '',''
     @ toFixed 2 (minAmount stats)"

text \<open>One record folded into a map from keys to the order-free values.\<close>

definition absStep ::
  "int \<Rightarrow> SalesRecord \<Rightarrow> (string \<rightharpoonup> jsint \<times> jsint \<times> nat \<times> jsnum \<times> jsnum)
     \<Rightarrow> (string \<rightharpoonup> jsint \<times> jsint \<times> nat \<times> jsnum \<times> jsnum)" where
  "absStep tz r m =
     m(recordKey tz r \<mapsto>
        (case m (recordKey tz r) of
           None \<Rightarrow> (getFullYear tz (parseDate tz (date r)),
                    map_option (\<lambda>i. i + 1) (getMonth tz (parseDate tz (date r))),
                    1, total r, total r)
         | Some (y, mth, n, hi, lo) \<Rightarrow>
             (y, mth, n + 1, Math_max hi (total r), Math_min lo (total r))))"

text \<open>The pieces of a text between the occurrences of a character.\<close>

fun splitOn :: "char \<Rightarrow> string \<Rightarrow> string list" where
  "splitOn c [] = [[]]"
| "splitOn c (x # xs) =
     (if x = c then [] # splitOn c xs
      else (case splitOn c xs of [] \<Rightarrow> [[x]] | y # ys \<Rightarrow> (x # y) # ys))"

text \<open>The characters of which the rendering of a finite number consists.\<close>

definition numChar :: "char \<Rightarrow> bool" where
  "numChar c = (isDigit c \<or> c = CHR ''.'' \<or> c = CHR ''e'' \<or> c = CHR ''+'' \<or> c = CHR ''-'')"

section \<open>Concrete input stores\<close>

definition fsWith :: "string \<Rightarrow> fsys" where
  "fsWith content = \<lparr>files = [''sales.csv'' \<mapsto> content], dirs = {''.''}\<rparr>"

text \<open>Three rows of March 2021 with the totals 600.00, 900.00 and 1200.00.\<close>

definition storeMarch :: string where
  "storeMarch = ''id,order_id,customer_id,total,date'' @ [CHR 0x0A]
     @ ''1,100001,7,600.00,2021-03-05T10:00:00.000Z'' @ [CHR 0x0A]
     @ ''2,100002,8,900.00,2021-03-15T11:30:00.000Z'' @ [CHR 0x0A]
     @ ''3,100003,9,1200.00,2021-03-25T23:59:59.000Z'' @ [CHR 0x0A]"

text \<open>A row whose total is not a number, followed by a well-formed row of the same month.\<close>

definition storeMalformed :: string where
  "storeMalformed = ''id,order_id,customer_id,total,date'' @ [CHR 0x0A]
     @ ''1,100001,7,abc,2021-03-05T10:00:00.000Z'' @ [CHR 0x0A]
     @ ''2,100002,8,900.00,2021-03-15T11:30:00.000Z'' @ [CHR 0x0A]"

text \<open>A row of March 2021 and a row of June 999.\<close>

definition storeYears :: string where
  "storeYears = ''id,order_id,customer_id,total,date'' @ [CHR 0x0A]
     @ ''1,100001,7,600.00,2021-03-05T10:00:00.000Z'' @ [CHR 0x0A]
     @ ''2,100002,8,900.00,0999-06-15T11:30:00.000Z'' @ [CHR 0x0A]"

text \<open>The same four rows of March 2021 in two orders.\<close>

definition storeOrderA :: string where
  "storeOrderA = ''id,order_id,customer_id,total,date'' @ [CHR 0x0A]
     @ ''1,100001,7,533.35,2021-03-05T10:00:00.000Z'' @ [CHR 0x0A]
     @ ''2,100002,8,1351.37,2021-03-05T10:00:00.000Z'' @ [CHR 0x0A]
     @ ''3,100003,9,1209.64,2021-03-05T10:00:00.000Z'' @ [CHR 0x0A]
     @ ''4,100004,5,512.06,2021-03-05T10:00:00.000Z'' @ [CHR 0x0A]"

definition storeOrderB :: string where
  "storeOrderB = ''id,order_id,customer_id,total,date'' @ [CHR 0x0A]
     @ ''1,100001,7,533.35,2021-03-05T10:00:00.000Z'' @ [CHR 0x0A]
     @ ''2,100002,8,1351.37,2021-03-05T10:00:00.000Z'' @ [CHR 0x0A]
     @ ''4,100004,5,512.06,2021-03-05T10:00:00.000Z'' @ [CHR 0x0A]
     @ ''3,100003,9,1209.64,2021-03-05T10:00:00.000Z'' @ [CHR 0x0A]"

section \<open>Evaluation of concrete inputs\<close>

lemma bitlen_numeral [simp]: "bitlen (numeral n) = bitlen (numeral n div 2) + 1"
  by (subst compute_bitlen) simp

lemma bitlen_one [simp]: "bitlen 1 = 1"
  by (subst compute_bitlen) simp

lemma replicate_numeral [simp]: "replicate (numeral k) x = x # replicate (pred_numeral k) x"
  by (simp add: numeral_eq_Suc)

lemmas num_eval = fl_def fl_pos_def expo_def pow2_def pow10_def rne_def round64_def Let_def
  ofInt_def ofNat_def jsub_def Math_pow2_def Math_max_def Math_min_def

lemmas str_eval = natToString.simps digitChar_def isDigit_def digitVal_def intToString_def
  jsintToString_def padStart_def parseNat_def decExp_def posToString_def numToString_def
  toFixed_def isSpace_def splitSign_def parseExponent_def parseFloat_def hexVal_def parseInt_def
  shortest.simps decExpSmall.simps

lemmas date_eval = isLeap_def daysIn_def nextDay_def prevDay_def addDays.simps newDate_def
  localTime_def getFullYear_def getMonth_def getDate_def pad_def toISOString_def parseDate_def digitsAt_def isoYear_def isoField_def
  isoSeconds_def isoTime_def isoZone_def notAfter_def timeClip_def makeDate_def

lemmas csv_eval = csv_parser_def parseLine_def parseCell_def writeRow_def trim_def rawField_def
  toRecord_def

section \<open>Digit strings\<close>

lemma lt10_cases: "n < 10 \<Longrightarrow> n \<in> {0, 1, 2, 3, 4, 5, 6, 7, 8, 9::nat}"
  by auto

lemma digitVal_digitChar: "n < 10 \<Longrightarrow> digitVal (digitChar n) = n"
  by (drule lt10_cases) (auto simp: digitChar_def digitVal_def)

lemma isDigit_digitChar: "n < 10 \<Longrightarrow> isDigit (digitChar n)"
  by (drule lt10_cases) (auto simp: digitChar_def isDigit_def)

lemma parseNat_snoc: "parseNat (ds @ [c]) = 10 * parseNat ds + digitVal c"
  by (simp add: parseNat_def)

lemma parseNat_natToString: "parseNat (natToString n) = n"
proof (induction n rule: natToString.induct)
  case (1 n)
  show ?case
  proof (cases "n < 10")
    case True
    then show ?thesis
      by (subst natToString.simps) (simp add: parseNat_def digitVal_digitChar)
  next
    case False
    with 1 have "parseNat (natToString (n div 10)) = n div 10" by simp
    with False show ?thesis
      by (subst natToString.simps) (simp add: parseNat_snoc digitVal_digitChar)
  qed
qed

lemma natToString_digits: "list_all isDigit (natToString n)"
proof (induction n rule: natToString.induct)
  case (1 n)
  then show ?case
    by (subst natToString.simps) (auto simp: isDigit_digitChar)
qed

lemma natToString_nonempty: "natToString n \<noteq> []"
  by (subst natToString.simps) simp

lemma natToString_inj: "natToString a = natToString b \<Longrightarrow> a = b"
  by (metis parseNat_natToString)

lemma natToString_length_le: "n < 10 ^ k \<Longrightarrow> 0 < k \<Longrightarrow> length (natToString n) \<le> k"
proof (induction n arbitrary: k rule: natToString.induct)
  case (1 n)
  show ?case
  proof (cases "n < 10")
    case True
    then show ?thesis using 1(3) by (subst natToString.simps) simp
  next
    case False
    then obtain k' where k: "k = Suc k'" and "0 < k'"
      using 1(2,3) by (cases k; cases "k - 1") auto
    with 1(2) have "n div 10 < 10 ^ k'" by (simp add: less_mult_imp_div_less mult.commute)
    with 1(1)[OF False this \<open>0 < k'\<close>] False k show ?thesis
      by (subst natToString.simps) simp
  qed
qed

lemma natToString_length_ge: "10 ^ k \<le> n \<Longrightarrow> k < length (natToString n)"
proof (induction n arbitrary: k rule: natToString.induct)
  case (1 n)
  show ?case
  proof (cases "n < 10")
    case True
    have "k = 0"
    proof (rule ccontr)
      assume "k \<noteq> 0"
      then have "(10::nat) ^ 1 \<le> 10 ^ k" by (intro power_increasing) auto
      with 1(2) True show False by simp
    qed
    then show ?thesis by (subst natToString.simps) simp
  next
    case False
    show ?thesis
    proof (cases k)
      case 0
      then show ?thesis by (subst natToString.simps) simp
    next
      case (Suc k')
      with 1(2) have "10 ^ k' \<le> n div 10" by (simp add: less_eq_div_iff_mult_less_eq mult.commute)
      with 1(1)[OF False this] False Suc show ?thesis
        by (subst natToString.simps) simp
    qed
  qed
qed

section \<open>Day arithmetic\<close>

lemma daysIn_bounds: "28 \<le> daysIn y m" "daysIn y m \<le> 31"
  by (simp_all add: daysIn_def)

lemma validDate_nextDay: "validDate c \<Longrightarrow> validDate (nextDay c)"
  using daysIn_bounds
  by (cases c) (auto simp: validDate_def nextDay_def intro: order_trans [of 1 28])

lemma validDate_prevDay: "validDate c \<Longrightarrow> validDate (prevDay c)"
  using daysIn_bounds
  by (cases c) (auto simp: validDate_def prevDay_def daysIn_def intro: order_trans [of 1 28])

lemma prevDay_nextDay: "validDate c \<Longrightarrow> prevDay (nextDay c) = c"
  using daysIn_bounds
  by (cases c) (auto simp: validDate_def prevDay_def nextDay_def daysIn_def)

lemma nextDay_prevDay: "validDate c \<Longrightarrow> nextDay (prevDay c) = c"
  using daysIn_bounds
  by (cases c) (auto simp: validDate_def prevDay_def nextDay_def daysIn_def)

lemma validDate_addDays: "validDate c \<Longrightarrow> validDate (addDays n c)"
proof (induction n c rule: addDays.induct)
  case (1 n c)
  then show ?case
    by (subst addDays.simps) (auto simp: validDate_nextDay validDate_prevDay)
qed

lemma addDays_nextDay_comm: "0 \<le> n \<Longrightarrow> addDays n (nextDay c) = nextDay (addDays n c)"
proof (induction n c rule: addDays.induct)
  case (1 n c)
  show ?case
  proof (cases "n = 0")
    case True
    then show ?thesis by (simp add: addDays.simps)
  next
    case False
    with 1(3) have pos: "0 < n" by simp
    from 1(1)[OF False pos] pos
    have "addDays (n - 1) (nextDay (nextDay c)) = nextDay (addDays (n - 1) (nextDay c))" by simp
    with pos show ?thesis
      by (subst addDays.simps, subst (2) addDays.simps) simp
  qed
qed

lemma addDays_prevDay_comm: "n \<le> 0 \<Longrightarrow> addDays n (prevDay c) = prevDay (addDays n c)"
proof (induction n c rule: addDays.induct)
  case (1 n c)
  show ?case
  proof (cases "n = 0")
    case True
    then show ?thesis by (simp add: addDays.simps)
  next
    case False
    with 1(3) have neg: "\<not> 0 < n" "n < 0" by simp_all
    from 1(2)[OF False neg(1)] neg
    have "addDays (n + 1) (prevDay (prevDay c)) = prevDay (addDays (n + 1) (prevDay c))" by simp
    with neg show ?thesis
      by (subst addDays.simps, subst (2) addDays.simps) simp
  qed
qed

lemma addDays_succ: "validDate c \<Longrightarrow> addDays (n + 1) c = nextDay (addDays n c)"
proof (cases "0 \<le> n")
  case True
  then have "addDays (n + 1) c = addDays n (nextDay c)"
    by (subst addDays.simps) simp
  with True show ?thesis by (simp add: addDays_nextDay_comm)
next
  case False
  assume v: "validDate c"
  from False have "addDays n c = addDays (n + 1) (prevDay c)"
    by (subst addDays.simps) simp
  also from False have "\<dots> = prevDay (addDays (n + 1) c)"
    by (simp add: addDays_prevDay_comm)
  finally show ?thesis
    using v by (simp add: nextDay_prevDay validDate_addDays)
qed

lemma addDays_pred: "validDate c \<Longrightarrow> addDays (n - 1) c = prevDay (addDays n c)"
  using addDays_succ [of c "n - 1"] by (simp add: prevDay_nextDay validDate_addDays)

lemma addDays_add: "validDate c \<Longrightarrow> addDays a (addDays b c) = addDays (a + b) c"
proof (induction a rule: int_induct [where k = 0])
  case base
  then show ?case by (simp add: addDays.simps)
next
  case (step1 i)
  have "addDays (i + 1) (addDays b c) = nextDay (addDays i (addDays b c))"
    using step1 by (simp add: addDays_succ validDate_addDays)
  also have "\<dots> = nextDay (addDays (i + b) c)"
    using step1 by simp
  also have "\<dots> = addDays (i + b + 1) c"
    using step1 by (simp add: addDays_succ)
  also have "i + b + 1 = i + 1 + b" by simp
  finally show ?case .
next
  case (step2 i)
  have "addDays (i - 1) (addDays b c) = prevDay (addDays i (addDays b c))"
    using step2 by (simp add: addDays_pred validDate_addDays)
  also have "\<dots> = prevDay (addDays (i + b) c)"
    using step2 by simp
  also have "\<dots> = addDays (i + b - 1) c"
    using step2 by (simp add: addDays_pred)
  also have "i + b - 1 = i - 1 + b" by simp
  finally show ?case .
qed

section \<open>Rounding to a double\<close>

lemma pow2_pos: "0 < pow2 e"
  by (simp add: pow2_def)

lemma inverse_pow2: "e \<le> 0 \<Longrightarrow> 1 / pow2 e = of_int (2 ^ nat (- e))"
  by (cases "e = 0") (simp_all add: pow2_def)

lemma rne_floor: "\<lfloor>z\<rfloor> \<le> rne z" "rne z \<le> \<lfloor>z\<rfloor> + 1"
  by (simp_all add: rne_def Let_def)

lemma rne_le: "z \<le> of_int N \<Longrightarrow> rne z \<le> N"
  unfolding rne_def Let_def by (auto simp: floor_le_iff)

lemma rne_ge: assumes "of_int N \<le> z" shows "N \<le> rne z"
proof -
  from assms have "N \<le> \<lfloor>z\<rfloor>" by (simp add: le_floor_iff)
  with rne_floor(1) [of z] show ?thesis by linarith
qed

lemma rne_lt: "z < of_int N - 1 / 2 \<Longrightarrow> rne z \<le> N - 1"
  unfolding rne_def Let_def by (auto simp: floor_le_iff; linarith)

lemma rne_err: "\<bar>of_int (rne z) - z\<bar> \<le> 1 / 2"
  unfolding rne_def Let_def by (auto simp: abs_if; linarith)

lemma expo_small: "0 < x \<Longrightarrow> x < 1 \<Longrightarrow> expo x \<le> - 1"
proof -
  assume "0 < x" "x < 1"
  then have "1 < 1 / x" by simp
  then have "2 \<le> \<lceil>1 / x\<rceil>" by linarith
  then have "1 \<le> bitlen (\<lceil>1 / x\<rceil> - 1)"
    by (simp add: bitlen_ge_iff_power)
  with \<open>x < 1\<close> show ?thesis by (simp add: expo_def)
qed

lemma expo_le: "0 < x \<Longrightarrow> x < 2 ^ n \<Longrightarrow> expo x \<le> int n - 1"
proof (cases "1 \<le> x")
  case True
  assume "x < 2 ^ n"
  then have "\<lfloor>x\<rfloor> < 2 ^ n"
    by (metis floor_less_iff of_int_numeral of_int_power)
  then have "bitlen \<lfloor>x\<rfloor> \<le> int n" by (simp add: bitlen_le_iff_power)
  with True show ?thesis by (simp add: expo_def)
next
  case False
  assume "0 < x" "x < 2 ^ n"
  with False have "expo x \<le> - 1" by (simp add: expo_small)
  then show ?thesis by simp
qed

lemma pow2_expo_le: "1 \<le> x \<Longrightarrow> pow2 (expo x) \<le> x"
proof -
  assume x: "1 \<le> x"
  then have pos: "0 < \<lfloor>x\<rfloor>" by linarith
  then have b: "1 \<le> bitlen \<lfloor>x\<rfloor>" by (simp add: bitlen_ge_iff_power)
  from bitlen_bounds [OF pos] have "2 ^ nat (bitlen \<lfloor>x\<rfloor> - 1) \<le> \<lfloor>x\<rfloor>" by simp
  then have "(2::real) ^ nat (bitlen \<lfloor>x\<rfloor> - 1) \<le> of_int \<lfloor>x\<rfloor>"
    by (metis of_int_le_iff of_int_numeral of_int_power)
  also have "\<dots> \<le> x" by simp
  finally show ?thesis using x b by (simp add: expo_def pow2_def)
qed

text \<open>Below \<open>2 ^ 53\<close> the rounding grid is \<open>1 / K\<close> for an integer \<open>K\<close>.\<close>

lemma fl_pos_grid:
  assumes "0 < x" "x < 2 ^ 53"
  obtains K :: int where "0 < K" "fl_pos x = of_int (rne (x * of_int K)) / of_int K"
proof -
  define K :: int where "K = 2 ^ nat (52 - expo x)"
  have e: "expo x - 52 \<le> 0" using expo_le [OF assms] by simp
  have K: "0 < K" by (simp add: K_def)
  have "1 / pow2 (expo x - 52) = of_int K"
    using inverse_pow2 [OF e] by (simp add: K_def)
  then have u: "pow2 (expo x - 52) = 1 / of_int K"
    by (metis div_by_1 divide_divide_eq_right mult.commute mult.right_neutral)
  show ?thesis
    by (rule that [OF K]) (simp add: fl_pos_def Let_def u)
qed

lemma fl_pos_le_int:
  assumes "0 < x" "x \<le> of_int b" "x < 2 ^ 53"
  shows "fl_pos x \<le> of_int b"
proof -
  obtain K :: int where K: "0 < K" and f: "fl_pos x = of_int (rne (x * of_int K)) / of_int K"
    using fl_pos_grid [OF assms(1,3)] by blast
  have "x * of_int K \<le> of_int b * of_int K"
    using assms(2) K by (simp add: mult_right_mono)
  then have "x * of_int K \<le> of_int (b * K)" by simp
  then have "rne (x * of_int K) \<le> b * K" by (rule rne_le)
  then have "(of_int (rne (x * of_int K)) :: real) \<le> of_int (b * K)"
    by (simp only: of_int_le_iff)
  then have "(of_int (rne (x * of_int K)) :: real) \<le> of_int b * of_int K" by simp
  with K show ?thesis by (simp add: f pos_divide_le_eq)
qed

lemma fl_pos_ge_int:
  assumes "0 < x" "of_int a \<le> x" "x < 2 ^ 53"
  shows "of_int a \<le> fl_pos x"
proof -
  obtain K :: int where K: "0 < K" and f: "fl_pos x = of_int (rne (x * of_int K)) / of_int K"
    using fl_pos_grid [OF assms(1,3)] by blast
  have "of_int a * of_int K \<le> x * of_int K"
    using assms(2) K by (simp add: mult_right_mono)
  then have "of_int (a * K) \<le> x * of_int K" by simp
  then have "a * K \<le> rne (x * of_int K)" by (rule rne_ge)
  then have "(of_int (a * K) :: real) \<le> of_int (rne (x * of_int K))"
    by (simp only: of_int_le_iff)
  then have "of_int a * of_int K \<le> (of_int (rne (x * of_int K)) :: real)" by simp
  with K show ?thesis by (simp add: f pos_le_divide_eq)
qed

lemma fl_bounds_int:
  assumes "0 \<le> a" "of_int a \<le> x" "x \<le> of_int b" "b < 2 ^ 53"
  shows "of_int a \<le> fl x \<and> fl x \<le> of_int b"
proof (cases "x = 0")
  case True
  with assms show ?thesis by (simp add: fl_def)
next
  case False
  have "(0::real) \<le> of_int a" using assms(1) by simp
  with assms(2) False have pos: "0 < x" by linarith
  have "(of_int b :: real) < of_int (2 ^ 53)" using assms(4) by (simp only: of_int_less_iff)
  with assms(3) have "x < 2 ^ 53" by simp
  with pos assms show ?thesis
    by (simp add: fl_def fl_pos_le_int fl_pos_ge_int)
qed

lemma pow2_times_grid: "e \<le> 52 \<Longrightarrow> of_int (2 ^ nat (52 - e)) * pow2 e = 2 ^ 52"
proof (cases "0 \<le> e")
  case True
  assume "e \<le> 52"
  with True have "nat (52 - e) + nat e = 52" by simp
  then have "(2::real) ^ nat (52 - e) * 2 ^ nat e = 2 ^ 52"
    by (simp only: power_add [symmetric])
  with True show ?thesis by (simp add: pow2_def)
next
  case False
  then have "nat (52 - e) = 52 + nat (- e)" by simp
  then have "(2::real) ^ nat (52 - e) = 2 ^ 52 * 2 ^ nat (- e)"
    by (simp only: power_add)
  with False show ?thesis by (simp add: pow2_def)
qed

lemma pow2_expo_less:
  assumes "0 < x" "x < of_int n" "1 \<le> n"
  shows "pow2 (expo x) < of_int n"
proof (cases "1 \<le> x")
  case True
  then show ?thesis using pow2_expo_le [OF True] assms(2) by simp
next
  case False
  with assms(1) have "expo x \<le> - 1" by (simp add: expo_small)
  then have "pow2 (expo x) \<le> 1 / 2"
    by (auto simp: pow2_def field_simps intro: self_le_power [of 2, THEN order_trans [rotated]])
  moreover have "(1::real) \<le> of_int n" using assms(3) by simp
  ultimately show ?thesis by simp
qed


lemma fl_pos_grid_eq:
  assumes "0 < x" "x < 2 ^ 53"
  shows "fl_pos x = of_int (rne (x * of_int (2 ^ nat (52 - expo x)))) / of_int (2 ^ nat (52 - expo x))"
proof -
  have e: "expo x - 52 \<le> 0" using expo_le [OF assms] by simp
  have "1 / pow2 (expo x - 52) = of_int (2 ^ nat (52 - expo x))"
    using inverse_pow2 [OF e] by simp
  then have u: "pow2 (expo x - 52) = 1 / of_int (2 ^ nat (52 - expo x))"
    by (metis div_by_1 divide_divide_eq_right mult.commute mult.right_neutral)
  show ?thesis
    by (simp add: fl_pos_def Let_def u)
qed

lemma fl_pos_below:
  assumes "0 < x" "x \<le> of_int n * (1 - 1 / 2 ^ 53)" "1 \<le> n" "n < 2 ^ 53"
  shows "fl_pos x < of_int n"
proof -
  define K :: int where "K = 2 ^ nat (52 - expo x)"
  have npos: "(0::real) < of_int n" using assms(3) by simp
  have "of_int n * (1 - 1 / 2 ^ 53) < (of_int n :: real)"
    using npos by (simp add: algebra_simps)
  with assms(2) have xn: "x < of_int n" by simp
  have "(of_int n :: real) < of_int (2 ^ 53)" using assms(4) by (simp only: of_int_less_iff)
  with xn have x53: "x < 2 ^ 53" by simp
  have e: "expo x \<le> 52" using expo_le [OF assms(1) x53] by simp
  have Kpos: "(0::real) < of_int K" by (simp add: K_def)
  have f: "fl_pos x = of_int (rne (x * of_int K)) / of_int K"
    unfolding K_def by (rule fl_pos_grid_eq [OF assms(1) x53])
  have g: "of_int K * pow2 (expo x) = 2 ^ 52"
    unfolding K_def by (rule pow2_times_grid [OF e])
  have p: "pow2 (expo x) < of_int n"
    by (rule pow2_expo_less [OF assms(1) xn assms(3)])
  have "of_int K * pow2 (expo x) < of_int K * of_int n"
    using p Kpos by (simp only: mult_strict_left_mono)
  with g have big: "2 ^ 52 < of_int n * (of_int K :: real)" by (simp add: mult.commute)
  have "x * of_int K \<le> of_int n * (1 - 1 / 2 ^ 53) * of_int K"
    using assms(2) Kpos by (simp add: mult_right_mono)
  also have "\<dots> = of_int n * of_int K - of_int n * of_int K / 2 ^ 53"
    by (simp add: algebra_simps)
  also have "\<dots> < of_int n * of_int K - 1 / 2"
  proof -
    have "(2::real) ^ 52 / 2 ^ 53 = 1 / 2" by simp
    moreover have "(2::real) ^ 52 / 2 ^ 53 < of_int n * of_int K / 2 ^ 53"
      using big by (simp only: divide_strict_right_mono zero_less_power zero_less_numeral)
    ultimately show ?thesis by linarith
  qed
  finally have "x * of_int K < of_int (n * K) - 1 / 2" by simp
  then have "rne (x * of_int K) \<le> n * K - 1" by (rule rne_lt)
  then have "(of_int (rne (x * of_int K)) :: real) \<le> of_int (n * K - 1)"
    by (simp only: of_int_le_iff)
  then have "(of_int (rne (x * of_int K)) :: real) < of_int n * of_int K" by simp
  with Kpos show ?thesis by (simp add: f pos_divide_less_eq)
qed

lemma fl_pos_nonneg: "0 < x \<Longrightarrow> 0 \<le> fl_pos x"
proof -
  assume "0 < x"
  then have "0 \<le> x / pow2 (expo x - 52)" using pow2_pos [of "expo x - 52"] by simp
  then have "0 \<le> rne (x / pow2 (expo x - 52))" using rne_ge [of 0] by simp
  then show ?thesis using pow2_pos [of "expo x - 52"] by (simp add: fl_pos_def Let_def)
qed

lemma floor_fl_range:
  assumes "0 \<le> r" "r \<le> 1 - 1 / 2 ^ 53" "1 \<le> n" "n < 2 ^ 53"
  shows "0 \<le> \<lfloor>fl (r * of_int n)\<rfloor> \<and> \<lfloor>fl (r * of_int n)\<rfloor> < n"
proof (cases "r * of_int n = 0")
  case True
  with assms(3) show ?thesis by (simp add: fl_def)
next
  case False
  have npos: "(0::real) < of_int n" using assms(3) by simp
  have "0 \<le> r * of_int n" using assms(1) npos by simp
  with False have pos: "0 < r * of_int n" by (simp only: less_le) simp
  have le: "r * of_int n \<le> of_int n * (1 - 1 / 2 ^ 53)"
  proof -
    have "(0::real) \<le> of_int n" using npos by (rule less_imp_le)
    with assms(2) have "of_int n * r \<le> of_int n * (1 - 1 / 2 ^ 53)"
      by (rule mult_left_mono)
    then show ?thesis by (simp only: mult.commute [of r])
  qed
  have "fl_pos (r * of_int n) < of_int n"
    by (rule fl_pos_below [OF pos le assms(3,4)])
  then have up: "\<lfloor>fl_pos (r * of_int n)\<rfloor> < n" by (simp only: floor_less_iff)
  have "0 \<le> fl_pos (r * of_int n)" by (rule fl_pos_nonneg [OF pos])
  then have lo: "0 \<le> \<lfloor>fl_pos (r * of_int n)\<rfloor>" by simp
  have "fl (r * of_int n) = fl_pos (r * of_int n)"
    unfolding fl_def using pos False by (simp only: if_False if_True)
  with up lo show ?thesis by (simp only:)
qed

text \<open>\<open>randomInt\<close> stays in its range when \<open>Math.random()\<close> returns a double below 1.\<close>

lemma randomInt_range:
  assumes "0 \<le> r" "r \<le> 1 - 1 / 2 ^ 53" "lo \<le> hi" "hi - lo + 1 < 2 ^ 53"
  shows "lo \<le> randomInt lo hi r \<and> randomInt lo hi r \<le> hi"
proof -
  have "1 \<le> hi - lo + 1" using assms(3) by simp
  from floor_fl_range [OF assms(1,2) this assms(4)] show ?thesis
    unfolding randomInt_def by linarith
qed

section \<open>Folding records into an active map\<close>

lemma active_update: "active ms \<Longrightarrow> amounts v \<noteq> None \<Longrightarrow> active (AList.update k v ms)"
  by (induction ms) (auto simp: active_def)

lemma active_map_of: "active ms \<Longrightarrow> map_of ms k = Some s \<Longrightarrow> amounts s \<noteq> None"
  by (induction ms) (auto simp: active_def split: if_splits)

lemma processSalesRecord_active:
  assumes "active ms"
  shows "processSalesRecord tz r ms
           = (False, AList.update (recordKey tz r) (folded tz r (map_of ms (recordKey tz r))) ms)"
proof (cases "map_of ms (recordKey tz r)")
  case None
  then show ?thesis
    by (simp add: processSalesRecord_def folded_def Let_def update_conv' AList.update_last)
next
  case (Some s)
  with assms obtain xs where "amounts s = Some xs"
    using active_map_of by fastforce
  with Some show ?thesis
    by (simp add: processSalesRecord_def folded_def Let_def)
qed

lemma folded_amounts: "amounts (folded tz r b) \<noteq> None"
  by (simp add: folded_def Let_def)

lemma onData_active:
  assumes "active ms"
  shows "onData tz (ms, n, e) raw
           = (AList.update (recordKey tz (toRecord raw))
                (folded tz (toRecord raw) (map_of ms (recordKey tz (toRecord raw)))) ms,
              n + 1, e)"
  using assms by (simp add: onData_def processSalesRecord_active)

lemma foldl_onData_active:
  "active ms \<Longrightarrow> \<exists>ms'. foldl (onData tz) (ms, n, e) rows = (ms', n + length rows, e) \<and> active ms'"
proof (induction rows arbitrary: ms n)
  case Nil
  then show ?case by simp
next
  case (Cons raw rows)
  let ?ms1 = "AList.update (recordKey tz (toRecord raw))
                (folded tz (toRecord raw) (map_of ms (recordKey tz (toRecord raw)))) ms"
  have "active ?ms1" using Cons.prems by (simp add: active_update folded_amounts)
  from Cons.IH [OF this, of "n + 1"] Cons.prems show ?case
    by (simp add: onData_active)
qed

lemma counted_active: "counted ms \<Longrightarrow> active ms"
  by (induction ms) (auto simp: counted_def active_def split: option.splits)

lemma counted_update:
  "counted ms \<Longrightarrow> amounts v = Some xs \<Longrightarrow> numberOfOrders v = length xs
     \<Longrightarrow> counted (AList.update k v ms)"
  by (induction ms) (auto simp: counted_def)

lemma counted_map_of:
  "counted ms \<Longrightarrow> map_of ms k = Some s \<Longrightarrow> \<exists>xs. amounts s = Some xs \<and> numberOfOrders s = length xs"
  by (induction ms) (auto simp: counted_def split: if_splits option.splits)

lemma folded_counted:
  assumes "b = None \<or> (\<exists>s xs. b = Some s \<and> amounts s = Some xs \<and> numberOfOrders s = length xs)"
  shows "\<exists>xs. amounts (folded tz r b) = Some xs \<and> numberOfOrders (folded tz r b) = length xs"
  using assms by (auto simp: folded_def Let_def)

lemma foldl_onData_counted:
  "counted ms \<Longrightarrow> counted (fst (foldl (onData tz) (ms, n, e) rows))"
proof (induction rows arbitrary: ms n)
  case Nil
  then show ?case by simp
next
  case (Cons raw rows)
  let ?k = "recordKey tz (toRecord raw)"
  let ?v = "folded tz (toRecord raw) (map_of ms ?k)"
  have "map_of ms ?k = None
        \<or> (\<exists>s xs. map_of ms ?k = Some s \<and> amounts s = Some xs \<and> numberOfOrders s = length xs)"
    using counted_map_of [OF Cons.prems] by (cases "map_of ms ?k") auto
  from folded_counted [OF this] obtain xs
    where "amounts ?v = Some xs" "numberOfOrders ?v = length xs" by blast
  then have "counted (AList.update ?k ?v ms)"
    using Cons.prems by (rule_tac counted_update) auto
  from Cons.IH [OF this] Cons.prems show ?case
    by (simp add: onData_active counted_active)
qed

lemma finalizeStats_counted:
  "counted ms \<Longrightarrow> finalizeStats ms = (False, map (\<lambda>e. (fst e, finalizedSpec (snd e))) ms)"
proof (induction ms)
  case Nil
  then show ?case by simp
next
  case (Cons e ms)
  obtain k s where e: "e = (k, s)" by (cases e)
  from Cons.prems e obtain xs where xs: "amounts s = Some xs" "numberOfOrders s = length xs"
    by (auto simp: counted_def split: option.splits)
  from Cons.prems have "counted ms" by (simp add: counted_def)
  with Cons.IH e xs show ?case
    by (simp add: Let_def finalizedSpec_def sampleStdDev_def calculateStandardDeviation_def)
qed

lemma active_foldRecord: "active ms \<Longrightarrow> active (foldRecord tz ms r)"
  by (simp add: foldRecord_def active_update folded_amounts)

lemma foldl_onData_records:
  "active ms \<Longrightarrow>
     foldl (onData tz) (ms, n, e) rows
       = (foldl (foldRecord tz) ms (map toRecord rows), n + length rows, e)"
proof (induction rows arbitrary: ms n)
  case Nil
  then show ?case by simp
next
  case (Cons raw rows)
  have "active (foldRecord tz ms (toRecord raw))"
    using Cons.prems by (rule active_foldRecord)
  from Cons.IH [OF this, of "n + 1"] Cons.prems
  show ?case by (simp add: onData_active foldRecord_def)
qed

lemma active_Nil: "active []"
  by (simp add: active_def)

lemma counted_Nil: "counted []"
  by (simp add: counted_def)

lemma dirname_plain: "CHR ''/'' \<notin> set p \<Longrightarrow> p \<noteq> [] \<Longrightarrow> dirname p = ''.''"
proof -
  assume a: "CHR ''/'' \<notin> set p" "p \<noteq> []"
  then obtain c cs where p: "p = c # cs" by (cases p) auto
  with a have "dropWhile (\<lambda>x. x = CHR ''/'') (rev cs) = rev cs"
    by (cases "rev cs") auto
  moreover from a p have "dropWhile (\<lambda>x. x \<noteq> CHR ''/'') (rev cs) = []"
    by auto
  ultimately show ?thesis using a p by (auto simp: dirname_def)
qed

lemma process_new:
  assumes "files fs inp = Some content" and "dirname outp \<in> dirs fs" and "outp \<notin> dirs fs"
    and "outp \<noteq> []" and "last outp \<noteq> CHR ''/''"
  shows "process tz (newSalesProcessor inp outp) fs
           = \<lparr>result = Inr (),
              processor = \<lparr>inputPath = inp, outputPath = outp, monthlyStats = finalStats tz content\<rparr>,
              fsAfter = fs\<lparr>files := (files fs)(outp \<mapsto> statsToCSV (finalStats tz content))\<rparr>,
              reportedLines = []\<rparr>"
proof -
  have f: "foldl (onData tz) ([], 0, []) (csv_parser content)
             = (foldl (foldRecord tz) [] (map toRecord (csv_parser content)),
                length (csv_parser content), [])"
    using foldl_onData_records [OF active_Nil, of tz 0 "[]" "csv_parser content"] by simp
  have "counted (fst (foldl (onData tz) ([], 0, []) (csv_parser content)))"
    by (rule foldl_onData_counted [OF counted_Nil])
  then have c: "counted (foldl (foldRecord tz) [] (map toRecord (csv_parser content)))"
    by (simp add: f)
  show ?thesis
    using assms
    by (auto simp: process_def newSalesProcessor_def existsSync_def writeFileSync_def f
        finalizeStats_counted [OF c] finalStats_def Let_def)
qed

lemma process_sales_csv:
  "process tz (newSalesProcessor ''sales.csv'' ''sales_report.csv'') (fsWith content)
     = \<lparr>result = Inr (),
        processor = \<lparr>inputPath = ''sales.csv'', outputPath = ''sales_report.csv'',
                     monthlyStats = finalStats tz content\<rparr>,
        fsAfter = (fsWith content)\<lparr>files := (files (fsWith content))
                    (''sales_report.csv'' \<mapsto> statsToCSV (finalStats tz content))\<rparr>,
        reportedLines = []\<rparr>"
  by (rule process_new) (simp_all add: fsWith_def existsSync_def dirname_plain)

section \<open>Finalization\<close>

lemmas agg_eval = foldRecord_def folded_def finalizedSpec_def sampleStdDev_def finalStats_def

lemma sqrt_90000: "sqrt 90000 = 300"
  by (rule real_sqrt_unique) simp_all

lemma march_dates:
  "getFullYear 0 (parseDate 0 ''2021-03-05T10:00:00.000Z'') = Some 2021"
  "getMonth 0 (parseDate 0 ''2021-03-05T10:00:00.000Z'') = Some 2"
  by (simp_all add: date_eval str_eval)

lemma march_rows:
  "map toRecord (csv_parser storeMarch) =
     [\<lparr>id' = Fin 1, order_id = Fin 100001, customer_id = Fin 7, total = Fin 600,
       date = ''2021-03-05T10:00:00.000Z''\<rparr>,
      \<lparr>id' = Fin 2, order_id = Fin 100002, customer_id = Fin 8, total = Fin 900,
       date = ''2021-03-15T11:30:00.000Z''\<rparr>,
      \<lparr>id' = Fin 3, order_id = Fin 100003, customer_id = Fin 9, total = Fin 1200,
       date = ''2021-03-25T23:59:59.000Z''\<rparr>]"
  by (simp add: storeMarch_def csv_eval str_eval num_eval)

lemma march_keys:
  "recordKey 0 \<lparr>id' = a, order_id = b, customer_id = c, total = t,
     date = ''2021-03-05T10:00:00.000Z''\<rparr> = ''2021-03''"
  "recordKey 0 \<lparr>id' = a, order_id = b, customer_id = c, total = t,
     date = ''2021-03-15T11:30:00.000Z''\<rparr> = ''2021-03''"
  "recordKey 0 \<lparr>id' = a, order_id = b, customer_id = c, total = t,
     date = ''2021-03-25T23:59:59.000Z''\<rparr> = ''2021-03''"
  by (simp_all add: recordKey_def date_eval str_eval)

lemma march_final:
  "finalStats 0 storeMarch =
     [(''2021-03'', \<lparr>year = Some 2021, month = Some 3, numberOfOrders = 3, maxAmount = Fin 1200,
        minAmount = Fin 600, totalAmount = Fin 2700, salesAverage = Fin 900,
        standardDeviation = Fin 300, amounts = None\<rparr>)]"
  by (simp add: agg_eval march_rows march_keys march_dates sqrt_90000 num_eval)

lemma march_report:
  "statsToCSV (finalStats 0 storeMarch)
     = reportHeader @ ''2021,3,March,3,1200.00,600.00,900.00,300.00'' @ [CHR 0x0A]"
  by (simp add: march_final statsToCSV_def sortedEntries_def reportLine_def getMonthName_def
      str_eval)

text \<open>
  Claim C5.  On the map that \<open>process\<close> has folded from any rows, \<open>finalizeStats\<close> does
  not throw, and it sets every bucket's average to its total divided by its number of
  orders and its standard deviation to the sample standard deviation of the
  specification (\<open>finalizedSpec\<close>).  On the store of three rows of March 2021 with the
  totals 600.00, 900.00 and 1200.00, the report written is the header and the line
  \<open>2021,3,March,3,1200.00,600.00,900.00,300.00\<close>.
\<close>

theorem finalization_statistics:
  "finalizeStats (fst (foldl (onData tz) ([], 0, []) rows))
     = (False, map (\<lambda>e. (fst e, finalizedSpec (snd e))) (fst (foldl (onData tz) ([], 0, []) rows)))
   \<and> files (fsAfter (process 0 (newSalesProcessor ''sales.csv'' ''sales_report.csv'')
                       (fsWith storeMarch))) ''sales_report.csv''
       = Some (reportHeader @ ''2021,3,March,3,1200.00,600.00,900.00,300.00'' @ [CHR 0x0A])"
proof
  have "counted (fst (foldl (onData tz) ([], 0, []) rows))"
    by (rule foldl_onData_counted [OF counted_Nil])
  then show "finalizeStats (fst (foldl (onData tz) ([], 0, []) rows))
     = (False, map (\<lambda>e. (fst e, finalizedSpec (snd e))) (fst (foldl (onData tz) ([], 0, []) rows)))"
    by (rule finalizeStats_counted)
next
  show "files (fsAfter (process 0 (newSalesProcessor ''sales.csv'' ''sales_report.csv'')
                       (fsWith storeMarch))) ''sales_report.csv''
       = Some (reportHeader @ ''2021,3,March,3,1200.00,600.00,900.00,300.00'' @ [CHR 0x0A])"
    by (simp add: process_sales_csv march_report)
qed

theorem finalization_statistics_witness:
  "finalizeStats (fst (foldl (onData 0) ([], 0, []) [])) = (False, [])"
  using finalization_statistics [of 0 "[]"] by simp

section \<open>A row that does not parse\<close>

lemma malformed_rows:
  "map toRecord (csv_parser storeMalformed) =
     [\<lparr>id' = Fin 1, order_id = Fin 100001, customer_id = Fin 7, total = NaN,
       date = ''2021-03-05T10:00:00.000Z''\<rparr>,
      \<lparr>id' = Fin 2, order_id = Fin 100002, customer_id = Fin 8, total = Fin 900,
       date = ''2021-03-15T11:30:00.000Z''\<rparr>]"
  by (simp add: storeMalformed_def csv_eval
      str_eval num_eval)

lemma malformed_final:
  "finalStats 0 storeMalformed =
     [(''2021-03'', \<lparr>year = Some 2021, month = Some 3, numberOfOrders = 2, maxAmount = NaN,
        minAmount = NaN, totalAmount = NaN, salesAverage = NaN,
        standardDeviation = NaN, amounts = None\<rparr>)]"
  by (simp add: agg_eval malformed_rows march_keys march_dates num_eval)

lemma malformed_report:
  "statsToCSV (finalStats 0 storeMalformed)
     = reportHeader @ ''2021,3,March,2,NaN,NaN,NaN,NaN'' @ [CHR 0x0A]"
  by (simp add: malformed_final statsToCSV_def sortedEntries_def reportLine_def getMonthName_def
      str_eval)

text \<open>
  Claim C1.  The claim is that a row with a field that does not parse is reported and
  skipped.  At the store \<open>storeMalformed\<close>, whose first row has the total \<open>abc\<close>, the
  code reports nothing and counts the row: \<open>parseFloat\<close> returns \<open>NaN\<close> without
  throwing, the row is folded into the bucket of March 2021, and the report line of
  that bucket has two orders and \<open>NaN\<close> for its amounts.
\<close>

theorem malformed_row_is_counted:
  "parseFloat ''abc'' = NaN
   \<and> reportedLines (process 0 (newSalesProcessor ''sales.csv'' ''sales_report.csv'')
                       (fsWith storeMalformed)) = []
   \<and> files (fsAfter (process 0 (newSalesProcessor ''sales.csv'' ''sales_report.csv'')
                       (fsWith storeMalformed))) ''sales_report.csv''
       = Some (reportHeader @ ''2021,3,March,2,NaN,NaN,NaN,NaN'' @ [CHR 0x0A])"
  by (simp add: process_sales_csv malformed_report str_eval)

section \<open>The order of the report rows\<close>

lemma year999_dates:
  "getFullYear 0 (parseDate 0 ''0999-06-15T11:30:00.000Z'') = Some 999"
  "getMonth 0 (parseDate 0 ''0999-06-15T11:30:00.000Z'') = Some 5"
  by (simp_all add: date_eval str_eval)

lemma year999_key:
  "recordKey 0 \<lparr>id' = a, order_id = b, customer_id = c, total = t,
     date = ''0999-06-15T11:30:00.000Z''\<rparr> = ''999-06''"
  by (simp add: recordKey_def date_eval str_eval)

lemma years_rows:
  "map toRecord (csv_parser storeYears) =
     [\<lparr>id' = Fin 1, order_id = Fin 100001, customer_id = Fin 7, total = Fin 600,
       date = ''2021-03-05T10:00:00.000Z''\<rparr>,
      \<lparr>id' = Fin 2, order_id = Fin 100002, customer_id = Fin 8, total = Fin 900,
       date = ''0999-06-15T11:30:00.000Z''\<rparr>]"
  by (simp add: storeYears_def csv_eval
      str_eval num_eval)

lemma years_final:
  "finalStats 0 storeYears =
     [(''2021-03'', \<lparr>year = Some 2021, month = Some 3, numberOfOrders = 1, maxAmount = Fin 600,
        minAmount = Fin 600, totalAmount = Fin 600, salesAverage = Fin 600,
        standardDeviation = Fin 0, amounts = None\<rparr>),
      (''999-06'', \<lparr>year = Some 999, month = Some 6, numberOfOrders = 1, maxAmount = Fin 900,
        minAmount = Fin 900, totalAmount = Fin 900, salesAverage = Fin 900,
        standardDeviation = Fin 0, amounts = None\<rparr>)]"
  by (simp add: agg_eval years_rows march_keys march_dates year999_key year999_dates num_eval)

lemma years_report:
  "statsToCSV (finalStats 0 storeYears)
     = reportHeader @ ''2021,3,March,1,600.00,600.00,600.00,0.00'' @ [CHR 0x0A]
         @ ''999,6,June,1,900.00,900.00,900.00,0.00'' @ [CHR 0x0A]"
  by (simp add: years_final statsToCSV_def sortedEntries_def reportLine_def getMonthName_def
      str_eval)

text \<open>
  Claim C8.  The claim is that the report rows ascend by year, then month.  The rows
  are sorted by the key string, whose year is not padded: at the store \<open>storeYears\<close>
  the row of March 2021 is written before the row of June 999.
\<close>

theorem year_999_sorts_after_2021:
  "files (fsAfter (process 0 (newSalesProcessor ''sales.csv'' ''sales_report.csv'')
                       (fsWith storeYears))) ''sales_report.csv''
       = Some (reportHeader @ ''2021,3,March,1,600.00,600.00,600.00,0.00'' @ [CHR 0x0A]
                 @ ''999,6,June,1,900.00,900.00,900.00,0.00'' @ [CHR 0x0A])"
  by (simp add: process_sales_csv years_report)

section \<open>Extrema and counts of a bucket\<close>

lemma jle_refl: "x \<noteq> NaN \<Longrightarrow> jle x x"
  by (cases x) simp_all

lemma jle_trans: "jle x y \<Longrightarrow> jle y z \<Longrightarrow> jle x z"
  by (cases x; cases y; cases z) simp_all

lemma jle_linear: "x \<noteq> NaN \<Longrightarrow> y \<noteq> NaN \<Longrightarrow> jle x y \<or> jle y x"
  by (cases x; cases y) auto

lemma jle_not_NaN: "jle x y \<Longrightarrow> x \<noteq> NaN \<and> y \<noteq> NaN"
  by (cases x; cases y) simp_all

lemma Math_max_same: "Math_max t t = t"
  by (cases t) (simp_all add: Math_max_def)

lemma Math_min_same: "Math_min t t = t"
  by (cases t) (simp_all add: Math_min_def)

lemma Math_max_ge:
  "x \<noteq> NaN \<Longrightarrow> y \<noteq> NaN \<Longrightarrow> jle x (Math_max x y) \<and> jle y (Math_max x y)"
  using jle_linear [of x y] by (auto simp: Math_max_def jle_refl)

lemma Math_min_le:
  "x \<noteq> NaN \<Longrightarrow> y \<noteq> NaN \<Longrightarrow> jle (Math_min x y) x \<and> jle (Math_min x y) y"
  using jle_linear [of x y] by (auto simp: Math_min_def jle_refl)

text \<open>The first record folded into a bucket sets both extrema to its own total.\<close>

lemma folded_first:
  "maxAmount (folded tz r None) = total r \<and> minAmount (folded tz r None) = total r
   \<and> numberOfOrders (folded tz r None) = 1 \<and> amounts (folded tz r None) = Some [total r]"
  by (simp add: folded_def Math_max_same Math_min_same)

text \<open>As long as no total is \<open>NaN\<close>, folding keeps the invariant of a bucket.\<close>

lemma folded_bucketInv:
  assumes "total r \<noteq> NaN"
    and "b = None \<or> (\<exists>s. b = Some s \<and> bucketInv s \<and> 0 < numberOfOrders s)"
  shows "bucketInv (folded tz r b) \<and> 0 < numberOfOrders (folded tz r b)"
proof (cases b)
  case None
  with assms(1) show ?thesis
    by (simp add: bucketInv_def folded_def Math_max_same Math_min_same jle_refl)
next
  case (Some s)
  with assms(2) have inv: "bucketInv s" and pos: "0 < numberOfOrders s" by auto
  then obtain xs where xs: "amounts s = Some xs" "numberOfOrders s = length xs"
    "list_all (\<lambda>t. jle (minAmount s) t \<and> jle t (maxAmount s)) xs"
    by (auto simp: bucketInv_def split: option.splits)
  with pos obtain x where "x \<in> set xs" by (cases xs) auto
  with xs(3) have "jle (minAmount s) x" "jle x (maxAmount s)" by (auto simp: list_all_iff)
  then have nn: "minAmount s \<noteq> NaN" "maxAmount s \<noteq> NaN" using jle_not_NaN by blast+
  let ?mx = "Math_max (maxAmount s) (total r)" and ?mn = "Math_min (minAmount s) (total r)"
  have mx: "jle (maxAmount s) ?mx" "jle (total r) ?mx"
    using Math_max_ge [OF nn(2) assms(1)] by simp_all
  have mn: "jle ?mn (minAmount s)" "jle ?mn (total r)"
    using Math_min_le [OF nn(1) assms(1)] by simp_all
  have "list_all (\<lambda>t. jle ?mn t \<and> jle t ?mx) xs"
    using xs(3) mx(1) mn(1) by (auto simp: list_all_iff intro: jle_trans)
  with mx(2) mn(2) xs Some show ?thesis
    by (simp add: bucketInv_def folded_def)
qed

lemma foldRecord_bucketInv:
  assumes "total r \<noteq> NaN"
    and "list_all (\<lambda>e. bucketInv (snd e) \<and> 0 < numberOfOrders (snd e)) ms"
  shows "list_all (\<lambda>e. bucketInv (snd e) \<and> 0 < numberOfOrders (snd e)) (foldRecord tz ms r)"
proof -
  let ?k = "recordKey tz r"
  have "map_of ms ?k = None \<or> (\<exists>s. map_of ms ?k = Some s \<and> bucketInv s \<and> 0 < numberOfOrders s)"
  proof (cases "map_of ms ?k")
    case None
    then show ?thesis by simp
  next
    case (Some s)
    then have "(?k, s) \<in> set ms" by (rule map_of_SomeD)
    with assms(2) Some show ?thesis by (auto simp: list_all_iff)
  qed
  from folded_bucketInv [OF assms(1) this, of tz]
  have v: "bucketInv (folded tz r (map_of ms ?k)) \<and> 0 < numberOfOrders (folded tz r (map_of ms ?k))" .
  have "\<And>v. bucketInv v \<and> 0 < numberOfOrders v \<Longrightarrow>
      list_all (\<lambda>e. bucketInv (snd e) \<and> 0 < numberOfOrders (snd e)) (AList.update ?k v ms)"
    using assms(2) by (induction ms) auto
  from this [OF v] show ?thesis by (simp add: foldRecord_def)
qed

lemma bucket_invariant_numeric:
  assumes "list_all (\<lambda>r. total r \<noteq> NaN) rs"
  shows "list_all (\<lambda>e. bucketInv (snd e)) (foldl (foldRecord tz) [] rs)"
proof -
  have "list_all (\<lambda>e. bucketInv (snd e) \<and> 0 < numberOfOrders (snd e)) ms \<Longrightarrow>
        list_all (\<lambda>e. bucketInv (snd e) \<and> 0 < numberOfOrders (snd e)) (foldl (foldRecord tz) ms rs)"
    for ms
    using assms
  proof (induction rs arbitrary: ms)
    case Nil
    then show ?case by simp
  next
    case (Cons r rs)
    then show ?case by (simp add: foldRecord_bucketInv)
  qed
  from this [of "[]"] show ?thesis by (simp add: list_all_iff)
qed

section \<open>The invariant of a bucket\<close>

text \<open>
  Claim C9.  The claim is that after each fold the extrema of a bucket bound every
  total folded into it.  When the row with the total \<open>abc\<close> has been folded, both
  extrema are \<open>NaN\<close> and stay so: after the next record, of total 900, neither
  \<open>minAmount <= 900\<close> nor \<open>900 <= maxAmount\<close> holds.
\<close>

theorem nan_total_breaks_extrema:
  "processSalesRecord 0
     \<lparr>id' = Fin 2, order_id = Fin 100002, customer_id = Fin 8, total = Fin 900,
      date = ''2021-03-15T11:30:00.000Z''\<rparr>
     (snd (processSalesRecord 0
        \<lparr>id' = Fin 1, order_id = Fin 100001, customer_id = Fin 7, total = parseFloat ''abc'',
         date = ''2021-03-05T10:00:00.000Z''\<rparr> []))
   = (False,
      [(''2021-03'', \<lparr>year = Some 2021, month = Some 3, numberOfOrders = 2, maxAmount = NaN,
         minAmount = NaN, totalAmount = NaN, salesAverage = Fin 0, standardDeviation = Fin 0,
         amounts = Some [NaN, Fin 900]\<rparr>)])
   \<and> \<not> jle NaN (Fin 900) \<and> \<not> jle (Fin 900) NaN"
proof -
  have p: "parseFloat ''abc'' = NaN" by (simp add: str_eval)
  have a: "active [(''2021-03'', \<lparr>year = Some 2021, month = Some 3, numberOfOrders = Suc 0,
      maxAmount = NaN, minAmount = NaN, totalAmount = NaN, salesAverage = Fin 0,
      standardDeviation = Fin 0, amounts = Some [NaN]\<rparr>)]"
    by (simp add: active_def)
  show ?thesis
    by (simp add: p processSalesRecord_active [OF active_Nil] processSalesRecord_active [OF a]
        folded_def march_keys march_dates num_eval)
qed

section \<open>Integers print as their decimal numerals\<close>

lemma natToString_times10: "0 < s \<Longrightarrow> natToString (s * 10) = natToString s @ ''0''"
  by (subst natToString.simps) (simp add: digitChar_def)

lemma natToString_times_pow10:
  "0 < s \<Longrightarrow> natToString (s * 10 ^ d) = natToString s @ replicate d CHR ''0''"
proof (induction d)
  case 0
  then show ?case by simp
next
  case (Suc d)
  have "natToString (s * 10 ^ Suc d) = natToString ((s * 10 ^ d) * 10)"
    by (simp add: mult.commute mult.left_commute)
  also have "\<dots> = natToString (s * 10 ^ d) @ ''0''"
    using Suc.prems by (intro natToString_times10) simp
  also have "\<dots> = natToString s @ replicate (Suc d) CHR ''0''"
    using Suc by (simp add: replicate_append_same)
  finally show ?case .
qed

lemma fl_of_nat: "m < 2 ^ 53 \<Longrightarrow> fl (of_nat m) = of_nat m"
proof -
  assume "m < 2 ^ 53"
  then have "int m < 2 ^ 53" by (simp add: nat_less_numeral_power_cancel_iff flip: of_nat_less_iff)
  from fl_bounds_int [of "int m" "of_nat m" "int m", OF _ _ _ this]
  show ?thesis by simp
qed

lemma expo_ge_53: assumes "2 ^ 53 \<le> x" shows "53 \<le> expo x"
proof -
  have x1: "1 \<le> x" using assms by simp
  have "(2::int) ^ 53 \<le> \<lfloor>x\<rfloor>" using assms by (simp add: le_floor_iff)
  then have "54 \<le> bitlen \<lfloor>x\<rfloor>" by (simp add: bitlen_ge_iff_power)
  then show ?thesis using x1 by (simp add: expo_def)
qed

lemma fl_pos_ge_pow53: assumes "2 ^ 53 \<le> x" shows "2 ^ 53 \<le> fl_pos x"
proof -
  define e where "e = expo x"
  have e: "53 \<le> e" unfolding e_def by (rule expo_ge_53 [OF assms])
  have x1: "1 \<le> x" using assms by simp
  have le: "pow2 e \<le> x" unfolding e_def by (rule pow2_expo_le [OF x1])
  define u :: real where "u = 2 ^ nat (e - 52)"
  have u: "pow2 (e - 52) = u" using e by (simp add: pow2_def u_def)
  have upos: "0 < u" by (simp add: u_def)
  have "nat e = 52 + nat (e - 52)" using e by simp
  then have "(2::real) ^ nat e = 2 ^ 52 * u" unfolding u_def by (simp only: power_add)
  then have pe: "pow2 e = 2 ^ 52 * u" using e by (simp add: pow2_def)
  have "2 ^ 52 * u \<le> x" using le pe by simp
  then have "of_int (2 ^ 52) \<le> x / u" using upos by (simp add: pos_le_divide_eq)
  then have "2 ^ 52 \<le> rne (x / u)" by (rule rne_ge)
  then have "(2::real) ^ 52 \<le> of_int (rne (x / u))"
    by (metis of_int_le_iff of_int_numeral of_int_power)
  then have a: "2 ^ 52 * u \<le> of_int (rne (x / u)) * u" using upos by simp
  have b: "fl_pos x = of_int (rne (x / u)) * u"
    by (simp add: fl_pos_def Let_def u flip: e_def)
  have c: "(2::real) ^ 53 \<le> 2 ^ 52 * u"
  proof -
    have "1 \<le> nat (e - 52)" using e by simp
    then have "(2::real) ^ 1 \<le> 2 ^ nat (e - 52)" by (intro power_increasing) simp_all
    then show ?thesis by (simp add: u_def)
  qed
  from c a have "(2::real) ^ 53 \<le> of_int (rne (x / u)) * u" by (rule order_trans)
  then show ?thesis by (simp only: b)
qed


lemma candidate_exact:
  fixes k m :: nat
  assumes "k < 2 ^ 53" and "fl (of_nat m) = of_nat k"
  shows "m = k"
proof (cases "m < 2 ^ 53")
  case True
  from fl_of_nat [OF True] assms(2) show ?thesis by simp
next
  case False
  then have "(2::nat) ^ 53 \<le> m" by simp
  then have "real ((2::nat) ^ 53) \<le> real m" by (simp only: of_nat_le_iff)
  then have m: "(2::real) ^ 53 \<le> of_nat m" by simp
  then have "(0::real) < of_nat m" by simp
  then have "fl (of_nat m) = fl_pos (of_nat m)" by (simp add: fl_def)
  with fl_pos_ge_pow53 [OF m] assms(2) have "(2::real) ^ 53 \<le> of_nat k" by simp
  then have "real ((2::nat) ^ 53) \<le> real k" by simp
  then have "(2::nat) ^ 53 \<le> k" by (simp only: of_nat_le_iff)
  with assms(1) show ?thesis by simp
qed

lemma natToString_length_16: "k < 2 ^ 53 \<Longrightarrow> length (natToString k) \<le> 16"
  by (rule natToString_length_le) simp_all

lemma shortest_nat:
  fixes k :: nat
  assumes k: "0 < k" "k < 2 ^ 53"
  shows "1 \<le> i \<Longrightarrow> i \<le> length (natToString k) \<Longrightarrow>
         \<exists>s j. shortest i (int (length (natToString k))) (of_nat k) = (s, j)
                \<and> i \<le> j \<and> j \<le> length (natToString k)
                \<and> s * 10 ^ (length (natToString k) - j) = k"
proof (induction "length (natToString k) - i" arbitrary: i)
  case 0
  then have i: "i = length (natToString k)" by simp
  have fk: "\<lfloor>real k + 1 / 2\<rfloor> = int k" by (simp add: floor_eq_iff)
  have "shortest i (int (length (natToString k))) (of_nat k) = (k, i)"
    by (subst shortest.simps) (simp add: i pow10_def fk fl_of_nat [OF k(2)])
  then show ?case using i by simp
next
  case (Suc d)
  define L where "L = length (natToString k)"
  define s where "s = nat \<lfloor>real k / 10 ^ (L - i) + 1 / 2\<rfloor>"
  have p: "pow10 (int L - int i) = 10 ^ (L - i)"
    using Suc.prems(2) by (simp add: pow10_def L_def nat_diff_distrib)
  have i16: "\<not> 17 \<le> i" using Suc.prems(2) natToString_length_16 [OF k(2)] by simp
  show ?case
  proof (cases "fl (of_nat s * 10 ^ (L - i)) = of_nat k")
    case True
    have "shortest i (int L) (of_nat k) = (s, i)"
      by (subst shortest.simps) (simp add: p s_def [symmetric] True)
    moreover have "s * 10 ^ (L - i) = k"
    proof (rule candidate_exact [OF k(2)])
      show "fl (real (s * 10 ^ (L - i))) = real k" using True by simp
    qed
    ultimately show ?thesis using Suc.prems by (auto simp: L_def)
  next
    case False
    have "shortest i (int L) (of_nat k) = shortest (i + 1) (int L) (of_nat k)"
      by (subst shortest.simps) (simp add: p s_def [symmetric] False i16)
    moreover have "d = L - (i + 1)" "1 \<le> i + 1" "i + 1 \<le> L"
      using Suc.hyps(2) by (simp_all add: L_def)
    ultimately show ?thesis
      using Suc.hyps(1) [of "i + 1"] unfolding L_def [symmetric] by fastforce
  qed
qed

lemma natToString_less_pow10: "k < 10 ^ length (natToString k)"
proof (rule ccontr)
  assume "\<not> k < 10 ^ length (natToString k)"
  then have "10 ^ length (natToString k) \<le> k" by simp
  from natToString_length_ge [OF this] show False by simp
qed

lemma posToString_nat:
  fixes k :: nat
  assumes k: "0 < k" "k < 2 ^ 53"
  shows "posToString (of_nat k) = natToString k"
proof -
  define L where "L = length (natToString k)"
  have L1: "1 \<le> L" using natToString_nonempty [of k] by (cases "natToString k") (simp_all add: L_def)
  have dec: "decExp (real k) = int L" using k(1) by (simp add: decExp_def L_def)
  from shortest_nat [OF k, of 1] L1
  obtain s j where sj: "shortest 1 (int L) (of_nat k) = (s, j)" "1 \<le> j" "j \<le> L"
      "s * 10 ^ (L - j) = k"
    unfolding L_def by blast
  have spos: "0 < s" using sj(4) k(1) by (cases s) simp_all
  have ne: "s \<noteq> 10 ^ j"
  proof
    assume "s = 10 ^ j"
    with sj(4) have "k = 10 ^ j * 10 ^ (L - j)" by simp
    also have "\<dots> = 10 ^ (j + (L - j))" by (simp only: power_add)
    also have "\<dots> = 10 ^ L" using sj(3) by simp
    finally show False using natToString_less_pow10 [of k] by (simp add: L_def)
  qed
  have L16: "L \<le> 16" unfolding L_def by (rule natToString_length_16 [OF k(2)])
  have sj1: "shortest (Suc 0) (int L) (real k) = (s, j)" using sj(1) by simp
  have "posToString (of_nat k) = natToString s @ replicate (L - j) CHR ''0''"
    using sj(3) L16 ne by (simp add: posToString_def dec sj1 Let_def nat_diff_distrib)
  also have "\<dots> = natToString (s * 10 ^ (L - j))"
    by (rule natToString_times_pow10 [OF spos, symmetric])
  finally show ?thesis by (simp only: sj(4))
qed

lemma numToString_ofInt:
  assumes "1 \<le> k" "k < 2 ^ 53"
  shows "numToString (ofInt k) = natToString (nat k)"
proof -
  have n: "0 < nat k" "nat k < 2 ^ 53" using assms by simp_all
  have "real_of_int k = real (nat k)" using assms(1) by simp
  moreover have "(0::real) < real (nat k)" using n(1) by simp
  ultimately show ?thesis
    using posToString_nat [OF n] by (simp add: numToString_def ofInt_def)
qed

lemma natToString_numChar: "list_all numChar (natToString n)"
  using natToString_digits [of n] by (simp add: list_all_iff numChar_def)

lemma numChar_consts:
  "numChar CHR ''0''" "numChar CHR ''.''" "numChar CHR ''e''" "numChar CHR ''+''" "numChar CHR ''-''"
  by (simp_all add: numChar_def isDigit_def)

lemma list_all_take: "list_all P xs \<Longrightarrow> list_all P (take n xs)"
  by (auto simp: list_all_iff dest: in_set_takeD)

lemma list_all_drop: "list_all P xs \<Longrightarrow> list_all P (drop n xs)"
  by (auto simp: list_all_iff dest: in_set_dropD)

lemma list_all_hd: "list_all P xs \<Longrightarrow> xs \<noteq> [] \<Longrightarrow> P (hd xs)"
  by (cases xs) simp_all

lemma list_all_tl: "list_all P xs \<Longrightarrow> list_all P (tl xs)"
  by (cases xs) simp_all

lemma list_all_replicate: "P x \<Longrightarrow> list_all P (replicate n x)"
  by (simp add: list_all_iff)

lemma posToString_numChar: "list_all numChar (posToString x)"
proof -
  obtain s0 k where sk: "shortest 1 (decExp x) x = (s0, k)" by (cases "shortest 1 (decExp x) x")
  obtain s n where sn: "(if s0 = 10 ^ k then (s0 div 10, decExp x + 1) else (s0, decExp x)) = (s, n)"
    by (cases "if s0 = 10 ^ k then (s0 div 10, decExp x + 1) else (s0, decExp x)")
  have f1: "list_all numChar (take a (natToString b))" for a b
    by (rule list_all_take [OF natToString_numChar])
  have f2: "list_all numChar (drop a (natToString b))" for a b
    by (rule list_all_drop [OF natToString_numChar])
  have f3: "list_all numChar (tl (natToString b))" for b
    by (rule list_all_tl [OF natToString_numChar])
  have f4: "numChar (hd (natToString b))" for b
    by (rule list_all_hd [OF natToString_numChar natToString_nonempty])
  have f5: "list_all numChar (replicate a CHR ''0'')" for a
    by (rule list_all_replicate) (rule numChar_consts(1))
  note f = natToString_numChar numChar_consts f1 f2 f3 f4 f5
  have "posToString x =
      (if int k \<le> n \<and> n \<le> 21 then natToString s @ replicate (nat (n - int k)) CHR ''0''
         else if 0 < n \<and> n \<le> 21 then take (nat n) (natToString s) @ ''.'' @ drop (nat n) (natToString s)
         else if - 6 < n \<and> n \<le> 0 then ''0.'' @ replicate (nat (- n)) CHR ''0'' @ natToString s
         else (if k = 1 then natToString s @ ''e'' @ (if n - 1 < 0 then ''-'' else ''+'') @ natToString (nat \<bar>n - 1\<bar>)
               else hd (natToString s) # ''.'' @ tl (natToString s) @ ''e'' @ (if n - 1 < 0 then ''-'' else ''+'') @ natToString (nat \<bar>n - 1\<bar>)))"
    unfolding posToString_def Let_def sk prod.case sn by (rule refl)
  then show ?thesis
    by (simp add: f)
qed

lemma numToString_no_break:
  assumes "c = CHR 0x0A \<or> c = CHR '',''"
  shows "c \<notin> set (numToString x)"
proof -
  have nc: "\<not> numChar c" using assms by (auto simp: numChar_def isDigit_def)
  have p: "c \<notin> set (posToString y)" for y
    using posToString_numChar [of y] nc by (auto simp: list_all_iff)
  have m: "c \<noteq> CHR ''-''" "c \<noteq> CHR ''0''" using assms by auto
  show ?thesis
  proof (cases x)
    case NaN
    then show ?thesis using assms by (auto simp: numToString_def)
  next
    case PInf
    then show ?thesis using assms by (auto simp: numToString_def)
  next
    case NInf
    then show ?thesis using assms by (auto simp: numToString_def)
  next
    case (Fin r)
    then show ?thesis using p m by (simp add: numToString_def)
  qed
qed

section \<open>The rows that the generator writes\<close>

lemma recordsFrom_add:
  "recordsFrom tz rand a (n + m) p
     = recordsFrom tz rand a n p @ recordsFrom tz rand (a + int n) m (p + 9 * n)"
proof -
  let ?F = "\<lambda>j. genRecord tz rand (a + int j) (p + 9 * j)"
  have 1: "[0..<n + m] = [0..<n] @ [n..<n + m]"
    using upt_add_eq_append [of 0 n m] by simp
  have 2: "[n..<n + m] = map (\<lambda>j. j + n) [0..<m]"
    using map_add_upt [of n m] by (simp add: add.commute)
  have 3: "?F (j + n) = genRecord tz rand (a + int n + int j) (p + 9 * n + 9 * j)" for j
  proof -
    have "a + int (j + n) = a + int n + int j" by simp
    moreover have "p + 9 * (j + n) = p + 9 * n + 9 * j" by simp
    ultimately show ?thesis by (simp only:)
  qed
  have "map ?F [n..<n + m] = map (\<lambda>j. ?F (j + n)) [0..<m]"
    unfolding 2 by (simp only: map_map comp_def)
  also have "\<dots> = recordsFrom tz rand (a + int n) m (p + 9 * n)"
    unfolding recordsFrom_def by (simp only: 3)
  finally show ?thesis
    unfolding recordsFrom_def 1 by (simp only: map_append)
qed

lemma generateBatch_loop_eq:
  "generateBatch_loop tz rand startId c i records p
     = (records @ recordsFrom tz rand (startId + i) (nat (c - i)) p, p + 9 * nat (c - i))"
proof (induction tz rand startId c i records p rule: generateBatch_loop.induct)
  case (1 tz rand startId c i records p)
  show ?case
  proof (cases "i < c")
    case True
    then have n: "nat (c - i) = 1 + nat (c - (i + 1))" by simp
    have "recordsFrom tz rand (startId + i) (nat (c - i)) p
            = genRecord tz rand (startId + i) p # recordsFrom tz rand (startId + (i + 1)) (nat (c - (i + 1))) (p + 9)"
      unfolding n recordsFrom_add by (simp add: recordsFrom_def add.assoc)
    with 1 [OF True] True show ?thesis
      by (subst generateBatch_loop.simps) simp
  next
    case False
    then show ?thesis
      by (subst generateBatch_loop.simps) (simp add: recordsFrom_def)
  qed
qed

lemma generateBatch_eq:
  "generateBatch tz rand startId c p = (recordsFrom tz rand startId (nat c) p, p + 9 * nat c)"
  by (simp add: generateBatch_def generateBatch_loop_eq)

lemma recordsToCSV_eq:
  "recordsToCSV records h = (if h then csvHeader else []) @ concat (map recordLine records)"
proof -
  have "foldl (\<lambda>csv r. csv @ recordLine r) acc records = acc @ concat (map recordLine records)" for acc
    by (induction records arbitrary: acc) simp_all
  then show ?thesis by (simp add: recordsToCSV_def)
qed

lemma generate_loop_eq:
  assumes "0 < batchSize"
  shows "processed \<le> totalRecords \<Longrightarrow>
     generate_loop tz rand totalRecords batchSize processed out p
       = Some (out @ concat (map recordLine
                 (recordsFrom tz rand (processed + 1) (nat (totalRecords - processed)) p)),
               p + 9 * nat (totalRecords - processed))"
proof (induction "nat (totalRecords - processed)" arbitrary: processed out p rule: less_induct)
  case less
  show ?case
  proof (cases "processed < totalRecords")
    case False
    with less.prems show ?thesis
      by (subst generate_loop.simps) (simp add: recordsFrom_def)
  next
    case True
    define c where "c = min batchSize (totalRecords - processed)"
    have c: "0 < c" "processed + c \<le> totalRecords" using True assms by (simp_all add: c_def)
    then have m: "nat (totalRecords - (processed + c)) < nat (totalRecords - processed)" by simp
    have split: "nat (totalRecords - processed) = nat c + nat (totalRecords - (processed + c))"
      using c by simp
    have "generate_loop tz rand totalRecords batchSize processed out p
          = generate_loop tz rand totalRecords batchSize (processed + c)
              (out @ concat (map recordLine (recordsFrom tz rand (processed + 1) (nat c) p)))
              (p + 9 * nat c)"
      using True
      by (subst generate_loop.simps) (simp add: Let_def c_def generateBatch_eq recordsToCSV_eq)
    also have "\<dots> = Some ((out @ concat (map recordLine (recordsFrom tz rand (processed + 1) (nat c) p)))
                 @ concat (map recordLine
                     (recordsFrom tz rand (processed + c + 1) (nat (totalRecords - (processed + c)))
                        (p + 9 * nat c))),
               p + 9 * nat c + 9 * nat (totalRecords - (processed + c)))"
      by (rule less.hyps [OF m c(2)])
    also have "\<dots> = Some (out @ concat (map recordLine
                 (recordsFrom tz rand (processed + 1) (nat (totalRecords - processed)) p)),
               p + 9 * nat (totalRecords - processed))"
      unfolding split recordsFrom_add using c by (simp add: add.commute add.left_commute)
    finally show ?thesis .
  qed
qed

lemma recordsFrom_ids: "map id' (recordsFrom tz rand 1 (nat T) p) = map ofInt [1..T]"
proof -
  have "map (\<lambda>j. 1 + int j) [0..<n] = [1..int n]" for n
  proof (induction n)
    case 0
    then show ?case by simp
  next
    case (Suc n)
    have "[1..int (Suc n)] = [1..int n] @ [int n + 1]"
      using upto_rec2 [of 1 "int n + 1"] by (simp add: add.commute)
    with Suc show ?case by (simp add: add.commute)
  qed
  from this [of "nat T"] have "map (\<lambda>j. 1 + int j) [0..<nat T] = [1..T]"
    by (cases "0 \<le> T") simp_all
  then have "map ofInt (map (\<lambda>j. 1 + int j) [0..<nat T]) = map ofInt [1..T]" by simp
  then show ?thesis by (simp add: recordsFrom_def genRecord_def comp_def)
qed

lemma pad_no_break:
  assumes "c = CHR 0x0A \<or> c = CHR '',''"
  shows "c \<notin> set (pad n i)"
proof -
  have "\<not> isDigit c" using assms by (auto simp: isDigit_def)
  then have "c \<notin> set (natToString m)" for m
    using natToString_digits [of m] by (auto simp: list_all_iff)
  moreover have "c \<noteq> CHR ''0''" using assms by auto
  ultimately show ?thesis by (simp add: pad_def padStart_def)
qed

lemma toISOString_no_break:
  assumes "c = CHR 0x0A \<or> c = CHR '',''"
  shows "c \<notin> set (toISOString d)"
proof -
  have "c \<noteq> CHR ''-''" "c \<noteq> CHR ''+''" "c \<noteq> CHR ''T''" "c \<noteq> CHR '':''" "c \<noteq> CHR ''.''"
    "c \<noteq> CHR ''Z''"
    using assms by auto
  then show ?thesis by (simp add: toISOString_def pad_no_break [OF assms])
qed

lemma randomDate_no_break:
  "c = CHR 0x0A \<or> c = CHR '','' \<Longrightarrow> c \<notin> set (randomDate tz rand p)"
  by (simp add: randomDate_def Let_def toISOString_no_break)

lemma splitOn_none: "c \<notin> set l \<Longrightarrow> splitOn c l = [l]"
  by (induction l) auto

lemma splitOn_append: "c \<notin> set l \<Longrightarrow> splitOn c (l @ c # rest) = l # splitOn c rest"
  by (induction l) auto

lemma splitOn_lines:
  assumes "\<And>l. l \<in> set ls \<Longrightarrow> c \<notin> set l"
  shows "splitOn c (concat (map (\<lambda>l. l @ [c]) ls)) = ls @ [[]]"
  using assms
proof (induction ls)
  case Nil
  then show ?case by simp
next
  case (Cons l ls)
  have "splitOn c (concat (map (\<lambda>l. l @ [c]) (l # ls)))
          = splitOn c (l @ c # concat (map (\<lambda>l. l @ [c]) ls))" by simp
  also have "\<dots> = l # splitOn c (concat (map (\<lambda>l. l @ [c]) ls))"
    by (rule splitOn_append) (simp add: Cons.prems)
  finally show ?case using Cons by simp
qed

text \<open>The text of a record line before its line break.\<close>

lemma recordLine_row:
  "recordLine r = (numToString (id' r) @ '','' @ numToString (order_id r) @ '',''
     @ numToString (customer_id r) @ '','' @ numToString (total r) @ '','' @ date r) @ [CHR 0x0A]"
  by (simp add: recordLine_def)

lemma butlast_recordLine:
  "butlast (recordLine r) = numToString (id' r) @ '','' @ numToString (order_id r) @ '',''
     @ numToString (customer_id r) @ '','' @ numToString (total r) @ '','' @ date r"
  unfolding recordLine_row by (rule butlast_snoc)

lemma row_no_newline:
  assumes "CHR 0x0A \<notin> set (date r)"
  shows "CHR 0x0A \<notin> set (butlast (recordLine r))"
  using assms by (simp add: butlast_recordLine numToString_no_break)

lemma row_id:
  "takeWhile (\<lambda>c. c \<noteq> CHR '','') (butlast (recordLine r)) = numToString (id' r)"
proof -
  have "takeWhile (\<lambda>c. c \<noteq> CHR '','') (numToString (id' r) @ CHR '','' # rest)
          = numToString (id' r) @ takeWhile (\<lambda>c. c \<noteq> CHR '','') (CHR '','' # rest)" for rest
  proof (rule takeWhile_append2)
    fix x assume "x \<in> set (numToString (id' r))"
    then show "x \<noteq> CHR '',''" using numToString_no_break [of "CHR '',''" "id' r"] by auto
  qed
  then show ?thesis by (simp add: butlast_recordLine)
qed

lemma row_cells:
  assumes "CHR '','' \<notin> set (date r)"
  shows "splitOn CHR '','' (butlast (recordLine r))
           = [numToString (id' r), numToString (order_id r), numToString (customer_id r),
              numToString (total r), date r]"
proof -
  have n: "CHR '','' \<notin> set (numToString x)" for x by (simp add: numToString_no_break)
  have "splitOn CHR '','' (a @ CHR '','' # b @ CHR '','' # c @ CHR '','' # d @ CHR '','' # e)
          = [a, b, c, d, e]"
    if "CHR '','' \<notin> set a" "CHR '','' \<notin> set b" "CHR '','' \<notin> set c" "CHR '','' \<notin> set d"
      "CHR '','' \<notin> set e" for a b c d e
    using that by (simp add: splitOn_append splitOn_none)
  from this [OF n n n n assms] show ?thesis by (simp add: butlast_recordLine)
qed

lemma generated_date_no_break:
  assumes "r \<in> set (recordsFrom tz rand a n p)" and "c = CHR 0x0A \<or> c = CHR '',''"
  shows "c \<notin> set (date r)"
proof -
  from assms(1) obtain j where "r = genRecord tz rand (a + int j) (p + 9 * j)"
    by (auto simp: recordsFrom_def)
  then have "date r = randomDate tz rand (p + 9 * j + 3)" by (simp add: genRecord_def)
  then show ?thesis using randomDate_no_break [OF assms(2)] by simp
qed

lemma generated_lines:
  "splitOn (CHR 0x0A) (csvHeader @ concat (map recordLine (recordsFrom tz rand a n p)))
     = ''id,order_id,customer_id,total,date''
       # map (\<lambda>r. butlast (recordLine r)) (recordsFrom tz rand a n p) @ [[]]"
proof -
  let ?recs = "recordsFrom tz rand a n p"
  let ?rows = "map (\<lambda>r. butlast (recordLine r)) ?recs"
  have "recordLine r = butlast (recordLine r) @ [CHR 0x0A]" for r
    by (simp only: butlast_recordLine) (rule recordLine_row)
  then have m: "map recordLine ?recs = map (\<lambda>l. l @ [CHR 0x0A]) ?rows"
    by (simp add: comp_def)
  have s: "splitOn (CHR 0x0A) (concat (map (\<lambda>l. l @ [CHR 0x0A]) ?rows)) = ?rows @ [[]]"
  proof (rule splitOn_lines)
    fix l assume "l \<in> set ?rows"
    then obtain r where r: "r \<in> set ?recs" "l = butlast (recordLine r)" by auto
    from generated_date_no_break [OF r(1), of "CHR 0x0A"] show "CHR 0x0A \<notin> set l"
      unfolding r(2) by (intro row_no_newline) simp
  qed
  have h: "splitOn (CHR 0x0A) (csvHeader @ rest)
      = ''id,order_id,customer_id,total,date'' # splitOn (CHR 0x0A) rest" for rest
    using splitOn_append [of "CHR 0x0A" "''id,order_id,customer_id,total,date''" rest]
    by (simp add: csvHeader_def)
  have "splitOn (CHR 0x0A) (csvHeader @ concat (map recordLine ?recs))
          = ''id,order_id,customer_id,total,date'' # splitOn (CHR 0x0A) (concat (map recordLine ?recs))"
    by (rule h)
  also have "\<dots> = ''id,order_id,customer_id,total,date''
                    # splitOn (CHR 0x0A) (concat (map (\<lambda>l. l @ [CHR 0x0A]) ?rows))"
    by (simp only: m)
  also have "\<dots> = ''id,order_id,customer_id,total,date'' # ?rows @ [[]]"
    by (simp only: s)
  finally show ?thesis .
qed

lemma generated_ids:
  assumes "T < 2 ^ 53"
  shows "map (takeWhile (\<lambda>c. c \<noteq> CHR '','')) (map (\<lambda>r. butlast (recordLine r)) (recordsFrom tz rand 1 (nat T) p))
           = map intToString [1..T]"
proof -
  have "map (takeWhile (\<lambda>c. c \<noteq> CHR '','')) (map (\<lambda>r. butlast (recordLine r)) (recordsFrom tz rand 1 (nat T) p))
          = map numToString (map id' (recordsFrom tz rand 1 (nat T) p))"
    by (simp add: comp_def row_id)
  also have "\<dots> = map numToString (map ofInt [1..T])" by (simp only: recordsFrom_ids)
  also have "\<dots> = map intToString [1..T]"
  proof -
    have "numToString (ofInt i) = intToString i" if "i \<in> set [1..T]" for i
    proof -
      from that have "1 \<le> i" "i < 2 ^ 53" using assms by simp_all
      from numToString_ofInt [OF this] this(1) show ?thesis by (simp add: intToString_def)
    qed
    then show ?thesis by (simp add: comp_def)
  qed
  finally show ?thesis .
qed

lemma generated_cells:
  "map (\<lambda>row. length (splitOn CHR '','' row)) (map (\<lambda>r. butlast (recordLine r)) (recordsFrom tz rand a n p))
     = replicate n 5"
proof -
  have "length (splitOn CHR '','' (butlast (recordLine r))) = 5"
    if "r \<in> set (recordsFrom tz rand a n p)" for r
    using row_cells [of r] generated_date_no_break [OF that, of "CHR '',''"] by simp
  then have "map (\<lambda>row. length (splitOn CHR '','' row)) (map (\<lambda>r. butlast (recordLine r)) (recordsFrom tz rand a n p))
     = map (\<lambda>r. 5) (recordsFrom tz rand a n p)"
    by (simp add: comp_def)
  also have "\<dots> = replicate n 5" by (simp add: map_replicate_const recordsFrom_def)
  finally show ?thesis .
qed

text \<open>When the parent of the output path is a regular file, nothing is written.\<close>

lemma generate_parent_not_directory:
  assumes "files fs (dirname outp) = Some x" and "dirname outp \<notin> dirs fs"
  shows "generate tz rand outp totalRecords batchSize fs = Some (Inl IOFailure, fs)"
  using assms
  by (simp add: generate_def existsSync_def createWriteStream_def writeFileSync_def Let_def)

text \<open>
  Claim C4.  Let \<open>totalRecords\<close> and \<open>batchSize\<close> be positive integers, \<open>totalRecords\<close>
  below \<open>2^53\<close> (up to there a JavaScript number counts exactly), and let the output
  path be the path of a file in an existing directory: not empty, not ending with \<open>/\<close>,
  its parent a directory and itself not one.  Then \<open>generate\<close> returns without failure,
  so its loop ends, and the lines of the file it has written are: the header line, then
  exactly \<open>totalRecords\<close> rows, then nothing after the last line break.  Every row has
  five cells between its commas, and the first cells of the rows are the decimal
  numerals of \<open>1, \<dots>, totalRecords\<close> in this order, whether or not \<open>batchSize\<close>
  divides \<open>totalRecords\<close>.
\<close>

theorem generate_rows_and_ids:
  assumes "0 < totalRecords" and "totalRecords < 2 ^ 53" and "0 < batchSize"
    and "outp \<noteq> []" and "last outp \<noteq> CHR ''/''"
    and "dirname outp \<in> dirs fs" and "outp \<notin> dirs fs"
  shows "\<exists>fs' rows.
           generate tz rand outp totalRecords batchSize fs = Some (Inr (), fs')
           \<and> map_option (splitOn (CHR 0x0A)) (files fs' outp)
               = Some (''id,order_id,customer_id,total,date'' # rows @ [[]])
           \<and> length rows = nat totalRecords
           \<and> map (takeWhile (\<lambda>c. c \<noteq> CHR '','')) rows = map intToString [1..totalRecords]
           \<and> map (\<lambda>row. length (splitOn CHR '','' row)) rows = replicate (nat totalRecords) 5"
proof -
  let ?recs = "recordsFrom tz rand 1 (nat totalRecords) 0"
  let ?rows = "map (\<lambda>r. butlast (recordLine r)) ?recs"
  let ?content = "csvHeader @ concat (map recordLine ?recs)"
  let ?fs' = "fs\<lparr>files := (files fs)(outp \<mapsto> ?content)\<rparr>"
  have l: "generate_loop tz rand totalRecords batchSize 0 csvHeader 0
             = Some (?content, 9 * nat totalRecords)"
    using generate_loop_eq [OF assms(3), of 0 totalRecords tz rand csvHeader 0] assms(1) by simp
  have g: "generate tz rand outp totalRecords batchSize fs = Some (Inr (), ?fs')"
    using assms(4,5,6,7)
    by (simp add: generate_def existsSync_def createWriteStream_def writeFileSync_def Let_def l)
  have f: "map_option (splitOn (CHR 0x0A)) (files ?fs' outp)
             = Some (''id,order_id,customer_id,total,date'' # ?rows @ [[]])"
    by (simp add: generated_lines)
  have n: "length ?rows = nat totalRecords" by (simp add: recordsFrom_def)
  from g f n generated_ids [OF assms(2), of tz rand 0] generated_cells [of tz rand 1 "nat totalRecords" 0]
  show ?thesis by blast
qed

theorem generate_rows_and_ids_witness:
  "\<exists>fs' rows.
     generate 0 (\<lambda>i. 0) ''sales.csv'' 3 2 \<lparr>files = Map.empty, dirs = {''.''}\<rparr> = Some (Inr (), fs')
     \<and> map_option (splitOn (CHR 0x0A)) (files fs' ''sales.csv'')
         = Some (''id,order_id,customer_id,total,date'' # rows @ [[]])
     \<and> length rows = 3
     \<and> map (takeWhile (\<lambda>c. c \<noteq> CHR '','')) rows = [''1'', ''2'', ''3'']
     \<and> map (\<lambda>row. length (splitOn CHR '','' row)) rows = [5, 5, 5]"
proof -
  have "map intToString [1..3] = [''1'', ''2'', ''3'']"
    by (simp add: upto_rec1 str_eval)
  moreover have "replicate (nat 3) (5::nat) = [5, 5, 5]"
    by (simp add: numeral_eq_Suc)
  ultimately show ?thesis
    using generate_rows_and_ids [where totalRecords = 3 and batchSize = 2 and outp = "''sales.csv''"
        and fs = "\<lparr>files = Map.empty, dirs = {''.''}\<rparr>" and tz = 0 and rand = "\<lambda>i. 0"]
    by (simp add: dirname_plain)
qed

section \<open>Independence of the read order\<close>

subsection \<open>The key determines year and month\<close>

lemma parseNat_zeros: "parseNat (replicate k CHR ''0'' @ ds) = parseNat ds"
proof -
  have "foldl (\<lambda>acc c. 10 * acc + digitVal c) 0 (replicate k CHR ''0'') = 0"
    by (induction k) (simp_all add: digitVal_def)
  then show ?thesis by (simp add: parseNat_def)
qed

lemma parseNat_pad: "parseNat (padStart n CHR ''0'' (natToString k)) = k"
  by (simp add: padStart_def parseNat_zeros parseNat_natToString)

lemma natToString_hd_digit: "isDigit (hd (natToString n))"
  using natToString_digits [of n] natToString_nonempty [of n]
  by (cases "natToString n") simp_all

lemma intToString_inj: "intToString a = intToString b \<Longrightarrow> a = b"
proof -
  assume e: "intToString a = intToString b"
  have nd: "\<not> isDigit CHR ''-''" by (simp add: isDigit_def)
  have neq: "CHR ''-'' # natToString n \<noteq> natToString k" for n k
    using natToString_hd_digit [of k] nd by (cases "natToString k") auto
  show ?thesis
  proof (cases "a < 0"; cases "b < 0")
    assume "a < 0" "b < 0"
    with e have "nat (- a) = nat (- b)" by (auto simp: intToString_def dest: natToString_inj)
    with \<open>a < 0\<close> \<open>b < 0\<close> show ?thesis by simp
  next
    assume "a < 0" "\<not> b < 0"
    with e neq show ?thesis by (simp add: intToString_def)
  next
    assume "\<not> a < 0" "b < 0"
    with e neq [of "nat (- b)" "nat a"] show ?thesis by (simp add: intToString_def)
  next
    assume "\<not> a < 0" "\<not> b < 0"
    with e have "nat a = nat b" by (auto simp: intToString_def dest: natToString_inj)
    with \<open>\<not> a < 0\<close> \<open>\<not> b < 0\<close> show ?thesis by simp
  qed
qed

lemma month_string_length:
  assumes "1 \<le> m" "m \<le> 12"
  shows "length (padStart 2 CHR ''0'' (jsintToString (Some m))) = 2"
proof -
  have "nat m < 10 ^ 2" using assms by simp
  then have "length (natToString (nat m)) \<le> 2" by (rule natToString_length_le) simp
  with assms show ?thesis by (simp add: padStart_def jsintToString_def intToString_def)
qed

lemma keyOf_inj:
  assumes "1 \<le> m" "m \<le> 12" "1 \<le> m'" "m' \<le> 12"
    and "keyOf (Some y) (Some m) = keyOf (Some y') (Some m')"
  shows "y = y' \<and> m = m'"
proof -
  let ?M = "padStart 2 CHR ''0'' (jsintToString (Some m))"
  let ?M' = "padStart 2 CHR ''0'' (jsintToString (Some m'))"
  have l: "length (''-'' @ ?M) = length (''-'' @ ?M')"
    using month_string_length [OF assms(1,2)] month_string_length [OF assms(3,4)] by simp
  from assms(5) have "intToString y @ (''-'' @ ?M) = intToString y' @ (''-'' @ ?M')"
    by (simp add: keyOf_def jsintToString_def)
  with l have "intToString y = intToString y'" and M: "?M = ?M'"
    by (simp_all add: append_eq_append_conv)
  then have "y = y'" by (simp add: intToString_inj)
  moreover have "nat m = nat m'"
  proof -
    have a: "?M = padStart 2 CHR ''0'' (natToString (nat m))"
      using assms(1) by (simp add: jsintToString_def intToString_def)
    have b: "?M' = padStart 2 CHR ''0'' (natToString (nat m'))"
      using assms(3) by (simp add: jsintToString_def intToString_def)
    have "parseNat ?M = parseNat ?M'" using M by (rule arg_cong)
    then show ?thesis unfolding a b by (simp only: parseNat_pad)
  qed
  ultimately show ?thesis using assms(1,3) by simp
qed

lemma intToString_chars:
  assumes "c \<in> set (intToString y)"
  shows "c = CHR ''-'' \<or> isDigit c"
proof -
  have "isDigit d" if "d \<in> set (natToString n)" for d n
    using natToString_digits [of n] that by (simp add: list_all_iff)
  with assms show ?thesis
    by (cases "y < 0") (auto simp: intToString_def)
qed

lemma keyOf_NaN:
  assumes "1 \<le> m" "m \<le> 12"
  shows "keyOf None None \<noteq> keyOf (Some y) (Some m)"
proof
  let ?M = "padStart 2 CHR ''0'' (jsintToString (Some m))"
  assume "keyOf None None = keyOf (Some y) (Some m)"
  then have e: "''NaN-'' @ ''NaN'' = intToString y @ (''-'' @ ?M)"
    by (simp add: keyOf_def jsintToString_def padStart_def)
  have "length (''NaN'' :: string) = length (''-'' @ ?M)"
    using month_string_length [OF assms] by simp
  with e have "intToString y = ''NaN-''"
    by (metis append_eq_append_conv)
  then have "CHR ''N'' \<in> set (intToString y)" by simp
  from intToString_chars [OF this] show False by (simp add: isDigit_def)
qed

lemma makeDate_valid:
  assumes "1 \<le> m" "m \<le> 12" and "makeDate y m d h mi se ms off = Some c"
  shows "validDate (yr c, mo c, dy c)"
proof -
  let ?q = "d - 1 + (h * 3600 + mi * 60 + se - off * 60) div 86400"
  obtain y' m' d' where a: "addDays ?q (y, m, 1) = (y', m', d')"
    by (cases "addDays ?q (y, m, 1)")
  have "validDate (y, m, 1)"
    using assms(1,2) daysIn_bounds(1) [of y m] by (simp add: validDate_def)
  then have "validDate (addDays ?q (y, m, 1))" by (rule validDate_addDays)
  then have v: "validDate (y', m', d')" by (simp only: a)
  from assms(3) have "yr c = y' \<and> mo c = m' \<and> dy c = d'"
    by (auto simp: makeDate_def timeClip_def Let_def a split: if_splits)
  with v show ?thesis by simp
qed

lemma parseDate_valid:
  assumes "parseDate tz s = Some c"
  shows "validDate (yr c, mo c, dy c)"
proof -
  from assms obtain y m d h mi se ms off where "1 \<le> m" "m \<le> 12"
    and "makeDate y m d h mi se ms off = Some c"
    unfolding parseDate_def
    by (auto split: option.splits prod.splits list.splits if_splits)
  then show ?thesis by (rule makeDate_valid)
qed

lemma localTime_valid:
  assumes "validDate (yr c, mo c, dy c)"
  shows "validDate (yr (localTime tz c), mo (localTime tz c), dy (localTime tz c))"
proof -
  let ?q = "(hh c * 3600 + mn c * 60 + sc c + tz * 60) div 86400"
  obtain y m d where a: "addDays ?q (yr c, mo c, dy c) = (y, m, d)"
    by (cases "addDays ?q (yr c, mo c, dy c)")
  have "validDate (addDays ?q (yr c, mo c, dy c))"
    using assms by (rule validDate_addDays)
  with a show ?thesis by (simp add: localTime_def Let_def)
qed

lemma recordKey_keyOf:
  "recordKey tz r = keyOf (getFullYear tz (parseDate tz (date r)))
                      (map_option (\<lambda>i. i + 1) (getMonth tz (parseDate tz (date r))))"
  by (simp add: recordKey_def keyOf_def Let_def)

lemma year_month_cases:
  "(getFullYear tz (parseDate tz s) = None \<and> getMonth tz (parseDate tz s) = None)
   \<or> (\<exists>y m. getFullYear tz (parseDate tz s) = Some y \<and> getMonth tz (parseDate tz s) = Some (m - 1)
              \<and> 1 \<le> m \<and> m \<le> 12)"
proof (cases "parseDate tz s")
  case None
  then show ?thesis by (simp add: getFullYear_def getMonth_def)
next
  case (Some c)
  from localTime_valid [OF parseDate_valid [OF Some], of tz]
  have "1 \<le> mo (localTime tz c) \<and> mo (localTime tz c) \<le> 12" by (simp add: validDate_def)
  with Some show ?thesis by (simp add: getFullYear_def getMonth_def)
qed

lemma recordKey_determines:
  assumes "recordKey tz a = recordKey tz b"
  shows "getFullYear tz (parseDate tz (date a)) = getFullYear tz (parseDate tz (date b))
         \<and> getMonth tz (parseDate tz (date a)) = getMonth tz (parseDate tz (date b))"
proof -
  let ?ya = "getFullYear tz (parseDate tz (date a))" and ?ma = "getMonth tz (parseDate tz (date a))"
  let ?yb = "getFullYear tz (parseDate tz (date b))" and ?mb = "getMonth tz (parseDate tz (date b))"
  from assms have k: "keyOf ?ya (map_option (\<lambda>i. i + 1) ?ma) = keyOf ?yb (map_option (\<lambda>i. i + 1) ?mb)"
    by (simp only: recordKey_keyOf)
  from year_month_cases [of tz "date a"] show ?thesis
  proof (elim disjE exE conjE)
    assume a: "?ya = None" "?ma = None"
    from year_month_cases [of tz "date b"] show ?thesis
    proof (elim disjE exE conjE)
      assume "?yb = None" "?mb = None"
      with a show ?thesis by simp
    next
      fix y m assume "?yb = Some y" "?mb = Some (m - 1)" "1 \<le> m" "m \<le> 12"
      with a k keyOf_NaN [of m y] show ?thesis by simp
    qed
  next
    fix y m assume a: "?ya = Some y" "?ma = Some (m - 1)" "1 \<le> m" "m \<le> 12"
    from year_month_cases [of tz "date b"] show ?thesis
    proof (elim disjE exE conjE)
      assume "?yb = None" "?mb = None"
      with a k keyOf_NaN [of m y] show ?thesis by simp
    next
      fix y' m' assume "?yb = Some y'" "?mb = Some (m' - 1)" "1 \<le> m'" "m' \<le> 12"
      with a k keyOf_inj [of m m' y y'] show ?thesis by simp
    qed
  qed
qed

subsection \<open>Maximum and minimum do not depend on the order\<close>

lemma Math_max_commute: "Math_max x y = Math_max y x"
  by (cases x; cases y) (auto simp: Math_max_def)

lemma Math_min_commute: "Math_min x y = Math_min y x"
  by (cases x; cases y) (auto simp: Math_min_def)

lemma Math_max_assoc: "Math_max (Math_max x y) z = Math_max x (Math_max y z)"
  by (cases x; cases y; cases z) (auto simp: Math_max_def)

lemma Math_min_assoc: "Math_min (Math_min x y) z = Math_min x (Math_min y z)"
  by (cases x; cases y; cases z) (auto simp: Math_min_def)

lemma Math_max_left_commute: "Math_max x (Math_max y z) = Math_max y (Math_max x z)"
  by (metis Math_max_assoc Math_max_commute)

lemma Math_min_left_commute: "Math_min x (Math_min y z) = Math_min y (Math_min x z)"
  by (metis Math_min_assoc Math_min_commute)

lemmas Math_max_min_ac = Math_max_assoc Math_max_commute Math_max_left_commute
  Math_min_assoc Math_min_commute Math_min_left_commute

lemma absStep_commute: "absStep tz a (absStep tz b m) = absStep tz b (absStep tz a m)"
proof (cases "recordKey tz a = recordKey tz b")
  case False
  then show ?thesis
    by (auto simp: absStep_def fun_upd_twist)
next
  case True
  from recordKey_determines [OF True] True show ?thesis
    by (cases "m (recordKey tz b)") (auto simp: absStep_def Math_max_min_ac)
qed

subsection \<open>The map of order-free values\<close>

lemma orderFree_folded:
  "orderFree (folded tz r b)
     = (case map_option orderFree b of
          None \<Rightarrow> (getFullYear tz (parseDate tz (date r)),
                   map_option (\<lambda>i. i + 1) (getMonth tz (parseDate tz (date r))),
                   1, total r, total r)
        | Some (y, mth, n, hi, lo) \<Rightarrow>
            (y, mth, n + 1, Math_max hi (total r), Math_min lo (total r)))"
  by (cases b) (simp_all add: orderFree_def folded_def Math_max_same Math_min_same)

lemma abs_foldRecord:
  "map_option orderFree \<circ> map_of (foldRecord tz ms r)
     = absStep tz r (map_option orderFree \<circ> map_of ms)"
  by (rule ext) (simp add: foldRecord_def update_conv' absStep_def orderFree_folded)

lemma abs_foldl:
  "map_option orderFree \<circ> map_of (foldl (foldRecord tz) ms rs)
     = fold (absStep tz) rs (map_option orderFree \<circ> map_of ms)"
  by (induction rs arbitrary: ms) (simp_all add: abs_foldRecord)

lemma abs_permuted:
  assumes "mset rs = mset rs'"
  shows "map_option orderFree \<circ> map_of (foldl (foldRecord tz) [] rs)
           = map_option orderFree \<circ> map_of (foldl (foldRecord tz) [] rs')"
proof -
  have "fold (absStep tz) rs = fold (absStep tz) rs'"
    by (rule fold_multiset_equiv [OF _ assms]) (simp add: fun_eq_iff absStep_commute)
  then show ?thesis by (simp add: abs_foldl)
qed

subsection \<open>Sorting entries with distinct keys\<close>

lemma distinct_foldl_foldRecord:
  "distinct (map fst ms) \<Longrightarrow> distinct (map fst (foldl (foldRecord tz) ms rs))"
  by (induction rs arbitrary: ms) (simp_all add: foldRecord_def distinct_update)

lemma insort_key_map_val:
  "insort_key fst (k, g v) (map (\<lambda>e. (fst e, g (snd e))) ys)
     = map (\<lambda>e. (fst e, g (snd e))) (insort_key fst (k, v) ys)"
  by (induction ys) simp_all

lemma sort_key_map_val:
  "sort_key fst (map (\<lambda>e. (fst e, g (snd e))) xs) = map (\<lambda>e. (fst e, g (snd e))) (sort_key fst xs)"
proof (induction xs)
  case Nil
  then show ?case by simp
next
  case (Cons e xs)
  obtain k v where "e = (k, v)" by (cases e)
  with Cons show ?case by (simp add: insort_key_map_val)
qed

lemma filter_key_distinct:
  "distinct (map fst xs) \<Longrightarrow> k \<in> set xs \<Longrightarrow> filter (\<lambda>x. fst k = fst x) xs = [k]"
proof (induction xs)
  case Nil
  then show ?case by simp
next
  case (Cons x xs)
  show ?case
  proof (cases "k = x")
    case True
    have "filter (\<lambda>y. fst x = fst y) xs = []"
      using Cons.prems(1) by (auto simp: filter_empty_conv)
    with True show ?thesis by simp
  next
    case False
    with Cons.prems have "k \<in> set xs" "fst k \<noteq> fst x" by (auto simp: image_iff)
    with Cons show ?thesis by simp
  qed
qed

lemma sort_key_determined:
  assumes "distinct (map fst xs)" "distinct (map fst ys)" "map_of xs = map_of ys"
  shows "sort_key fst xs = sort_key fst ys"
proof -
  have s: "set xs = set ys" using assms by (simp add: map_of_inject_set)
  have dx: "distinct xs" "distinct ys" using assms(1,2) by (simp_all add: distinct_map)
  with s have m: "mset xs = mset ys" by (simp add: set_eq_iff_mset_eq_distinct)
  let ?zs = "sort_key fst ys"
  have d: "distinct (map fst ?zs)" using assms(2) by (simp add: distinct_map)
  show ?thesis
  proof (rule properties_for_sort_key)
    show "mset ?zs = mset xs" using m by simp
    show "sorted (map fst ?zs)" by simp
    fix k assume k: "k \<in> set ?zs"
    then have "k \<in> set xs" using s by simp
    then have "filter (\<lambda>x. fst k = fst x) xs = [k]" by (rule filter_key_distinct [OF assms(1)])
    moreover have "filter (\<lambda>x. fst k = fst x) ?zs = [k]" by (rule filter_key_distinct [OF d k])
    ultimately show "filter (\<lambda>x. fst k = fst x) ?zs = filter (\<lambda>x. fst k = fst x) xs" by simp
  qed
qed

subsection \<open>The report of permuted rows\<close>

lemma reportPrefix_orderFree: "orderFree s = orderFree s' \<Longrightarrow> reportPrefix s = reportPrefix s'"
  by (simp add: orderFree_def reportPrefix_def)

lemma reportLine_prefix:
  "reportLine s = reportPrefix s @ '','' @ toFixed 2 (salesAverage s) @ '',''
                    @ toFixed 2 (standardDeviation s) @ [CHR 0x0A]"
  by (simp add: reportLine_def reportPrefix_def)

lemma orderFree_finalizedSpec: "orderFree (finalizedSpec s) = orderFree s"
  by (simp add: orderFree_def finalizedSpec_def Let_def)

lemma map_reportPrefix:
  "map (\<lambda>e. (fst e, orderFree (snd e))) xs = map (\<lambda>e. (fst e, orderFree (snd e))) ys
     \<Longrightarrow> map (\<lambda>e. reportPrefix (snd e)) xs = map (\<lambda>e. reportPrefix (snd e)) ys"
proof (induction xs arbitrary: ys)
  case Nil
  then show ?case by simp
next
  case (Cons x xs)
  then obtain y ys' where "ys = y # ys'" by (cases ys) auto
  with Cons show ?case by (auto intro: reportPrefix_orderFree)
qed

lemma finalized_entries:
  "snd (finalizeStats (fst (foldl (onData tz) ([], 0, []) rows)))
     = map (\<lambda>e. (fst e, finalizedSpec (snd e))) (foldl (foldRecord tz) [] (map toRecord rows))"
proof -
  have "counted (fst (foldl (onData tz) ([], 0, []) rows))"
    by (rule foldl_onData_counted [OF counted_Nil])
  from finalizeStats_counted [OF this] show ?thesis
    by (simp add: foldl_onData_records [OF active_Nil])
qed

lemma sorted_orderFree_permuted:
  assumes "mset rs = mset rs'"
  shows "map (\<lambda>e. (fst e, orderFree (snd e))) (sort_key fst (foldl (foldRecord tz) [] rs))
       = map (\<lambda>e. (fst e, orderFree (snd e))) (sort_key fst (foldl (foldRecord tz) [] rs'))"
proof -
  let ?p = "\<lambda>e :: string \<times> SalesStats. (fst e, orderFree (snd e))"
  let ?ms = "foldl (foldRecord tz) [] rs" and ?ms' = "foldl (foldRecord tz) [] rs'"
  have mo: "map_of (map ?p xs) = map_option orderFree \<circ> map_of xs" for xs
    by (induction xs) (auto simp: fun_eq_iff)
  have d: "distinct (map fst (map ?p ?ms))" "distinct (map fst (map ?p ?ms'))"
    using distinct_foldl_foldRecord [of "[]" tz] by (simp_all add: comp_def)
  have "map_of (map ?p ?ms) = map_of (map ?p ?ms')"
    unfolding mo by (rule abs_permuted [OF assms])
  with d have "sort_key fst (map ?p ?ms) = sort_key fst (map ?p ?ms')"
    by (rule sort_key_determined)
  then show ?thesis by (simp only: sort_key_map_val)
qed

section \<open>The report and the order of the rows\<close>

lemma orderA_rows:
  "map toRecord (csv_parser storeOrderA) =
     [\<lparr>id' = Fin 1, order_id = Fin 100001, customer_id = Fin 7,
       total = Fin (4691396213394637 / 8796093022208), date = ''2021-03-05T10:00:00.000Z''\<rparr>,
      \<lparr>id' = Fin 2, order_id = Fin 100002, customer_id = Fin 8,
       total = Fin (1485847028427653 / 1099511627776), date = ''2021-03-05T10:00:00.000Z''\<rparr>,
      \<lparr>id' = Fin 3, order_id = Fin 100003, customer_id = Fin 9,
       total = Fin (5320052981691843 / 4398046511104), date = ''2021-03-05T10:00:00.000Z''\<rparr>,
      \<lparr>id' = Fin 4, order_id = Fin 100004, customer_id = Fin 5,
       total = Fin (1126031848237957 / 2199023255552), date = ''2021-03-05T10:00:00.000Z''\<rparr>]"
  by (simp add: storeOrderA_def csv_eval
      str_eval num_eval)

lemma orderB_rows:
  "map toRecord (csv_parser storeOrderB) =
     [\<lparr>id' = Fin 1, order_id = Fin 100001, customer_id = Fin 7,
       total = Fin (4691396213394637 / 8796093022208), date = ''2021-03-05T10:00:00.000Z''\<rparr>,
      \<lparr>id' = Fin 2, order_id = Fin 100002, customer_id = Fin 8,
       total = Fin (1485847028427653 / 1099511627776), date = ''2021-03-05T10:00:00.000Z''\<rparr>,
      \<lparr>id' = Fin 4, order_id = Fin 100004, customer_id = Fin 5,
       total = Fin (1126031848237957 / 2199023255552), date = ''2021-03-05T10:00:00.000Z''\<rparr>,
      \<lparr>id' = Fin 3, order_id = Fin 100003, customer_id = Fin 9,
       total = Fin (5320052981691843 / 4398046511104), date = ''2021-03-05T10:00:00.000Z''\<rparr>]"
  by (simp add: storeOrderB_def csv_eval
      str_eval num_eval)

lemma orderA_fold:
  "foldl (foldRecord 0) [] (map toRecord (csv_parser storeOrderA)) =
     [(''2021-03'', \<lparr>year = Some 2021, month = Some 3, numberOfOrders = 4,
        maxAmount = Fin (1485847028427653 / 1099511627776),
        minAmount = Fin (1126031848237957 / 2199023255552),
        totalAmount = Fin (7930601449287843 / 2199023255552), salesAverage = Fin 0,
        standardDeviation = Fin 0,
        amounts = Some [Fin (4691396213394637 / 8796093022208),
          Fin (1485847028427653 / 1099511627776), Fin (5320052981691843 / 4398046511104),
          Fin (1126031848237957 / 2199023255552)]\<rparr>)]"
  by (simp add: orderA_rows foldRecord_def folded_def march_keys march_dates num_eval)

lemma orderB_fold:
  "foldl (foldRecord 0) [] (map toRecord (csv_parser storeOrderB)) =
     [(''2021-03'', \<lparr>year = Some 2021, month = Some 3, numberOfOrders = 4,
        maxAmount = Fin (1485847028427653 / 1099511627776),
        minAmount = Fin (1126031848237957 / 2199023255552),
        totalAmount = Fin (1982650362321961 / 549755813888), salesAverage = Fin 0,
        standardDeviation = Fin 0,
        amounts = Some [Fin (4691396213394637 / 8796093022208),
          Fin (1485847028427653 / 1099511627776), Fin (1126031848237957 / 2199023255552),
          Fin (5320052981691843 / 4398046511104)]\<rparr>)]"
  by (simp add: orderB_rows foldRecord_def folded_def march_keys march_dates num_eval)

lemma orderA_report:
  "\<exists>sd. statsToCSV (finalStats 0 storeOrderA)
          = reportHeader @ ''2021,3,March,4,1351.37,512.06,901.60,'' @ sd @ [CHR 0x0A]"
  by (simp add: finalStats_def orderA_fold finalizedSpec_def statsToCSV_def sortedEntries_def
      reportLine_def getMonthName_def str_eval num_eval)

lemma orderB_report:
  "\<exists>sd. statsToCSV (finalStats 0 storeOrderB)
          = reportHeader @ ''2021,3,March,4,1351.37,512.06,901.61,'' @ sd @ [CHR 0x0A]"
  by (simp add: finalStats_def orderB_fold finalizedSpec_def statsToCSV_def sortedEntries_def
      reportLine_def getMonthName_def str_eval num_eval)

lemma order_rows_permuted: "mset (csv_parser storeOrderA) = mset (csv_parser storeOrderB)"
  by (simp add: storeOrderA_def storeOrderB_def csv_eval isSpace_def)

text \<open>
  Claim C6, as stated, fails.  The stores \<open>storeOrderA\<close> and \<open>storeOrderB\<close> hold the same
  four rows of March 2021, the last two exchanged.  The running sum of the totals is
  rounded after each addition, and it differs in its last bit between the two orders;
  the report of the first store has the average 901.60, the report of the second
  901.61.
\<close>

theorem report_depends_on_row_order:
  "mset (csv_parser storeOrderA) = mset (csv_parser storeOrderB)
   \<and> files (fsAfter (process 0 (newSalesProcessor ''sales.csv'' ''sales_report.csv'')
                       (fsWith storeOrderA))) ''sales_report.csv''
     \<noteq> files (fsAfter (process 0 (newSalesProcessor ''sales.csv'' ''sales_report.csv'')
                       (fsWith storeOrderB))) ''sales_report.csv''"
proof -
  obtain sdA where a: "statsToCSV (finalStats 0 storeOrderA)
      = reportHeader @ ''2021,3,March,4,1351.37,512.06,901.60,'' @ sdA @ [CHR 0x0A]"
    using orderA_report by blast
  obtain sdB where b: "statsToCSV (finalStats 0 storeOrderB)
      = reportHeader @ ''2021,3,March,4,1351.37,512.06,901.61,'' @ sdB @ [CHR 0x0A]"
    using orderB_report by blast
  show ?thesis
    by (simp add: order_rows_permuted process_sales_csv a b)
qed

text \<open>
  Claim C6, amended.  For two sequences of rows that are permutations of each other,
  the reports have the same lines in the same order as far as the columns year, month,
  month name, number of orders, maximum and minimum go (\<open>reportPrefix\<close>, the first six
  columns of every report line).  Nothing is said of the average and the standard
  deviation, which accumulate rounded sums in read order.
\<close>

theorem report_order_free_columns:
  assumes "mset rows = mset rows'"
  shows "map (\<lambda>e. reportPrefix (snd e))
           (sortedEntries (snd (finalizeStats (fst (foldl (onData tz) ([], 0, []) rows)))))
       = map (\<lambda>e. reportPrefix (snd e))
           (sortedEntries (snd (finalizeStats (fst (foldl (onData tz) ([], 0, []) rows')))))"
proof -
  let ?p = "\<lambda>e :: string \<times> SalesStats. (fst e, orderFree (snd e))"
  let ?f = "\<lambda>e :: string \<times> SalesStats. (fst e, finalizedSpec (snd e))"
  let ?ms = "foldl (foldRecord tz) [] (map toRecord rows)"
  let ?ms' = "foldl (foldRecord tz) [] (map toRecord rows')"
  have pf: "map ?p (map ?f xs) = map ?p xs" for xs
    by (simp add: orderFree_finalizedSpec)
  have "mset (map toRecord rows) = mset (map toRecord rows')"
    using assms by (metis mset_map)
  then have "map ?p (sort_key fst ?ms) = map ?p (sort_key fst ?ms')"
    by (rule sorted_orderFree_permuted)
  then have "map ?p (map ?f (sort_key fst ?ms)) = map ?p (map ?f (sort_key fst ?ms'))"
    by (simp only: pf)
  then have "map (\<lambda>e. reportPrefix (snd e)) (map ?f (sort_key fst ?ms))
           = map (\<lambda>e. reportPrefix (snd e)) (map ?f (sort_key fst ?ms'))"
    by (rule map_reportPrefix)
  then show ?thesis
    by (simp only: finalized_entries sortedEntries_def sort_key_map_val)
qed

theorem report_order_free_columns_witness:
  "mset (csv_parser storeOrderA) = mset (csv_parser storeOrderB)
   \<and> map (\<lambda>e. reportPrefix (snd e))
         (sortedEntries (snd (finalizeStats
            (fst (foldl (onData 0) ([], 0, []) (csv_parser storeOrderA))))))
     = map (\<lambda>e. reportPrefix (snd e))
         (sortedEntries (snd (finalizeStats
            (fst (foldl (onData 0) ([], 0, []) (csv_parser storeOrderB))))))"
  using report_order_free_columns [OF order_rows_permuted, of 0] order_rows_permuted
  by simp

section \<open>The missing input store\<close>

text \<open>
  Claim C7.  When the input path names neither a file nor a directory, \<open>process\<close> fails
  with the not-found error, and it leaves the file system and the processor as they
  were: no report is written.
\<close>

theorem process_missing_input:
  assumes "files fs (inputPath sp) = None" and "inputPath sp \<notin> dirs fs"
  shows "result (process tz sp fs) = Inl (NotFound (''Input file not found: '' @ inputPath sp))
         \<and> fsAfter (process tz sp fs) = fs
         \<and> processor (process tz sp fs) = sp"
  using assms by (simp add: process_def existsSync_def)

theorem process_missing_input_witness:
  "result (process 0 (newSalesProcessor ''sales.csv'' ''sales_report.csv'')
             \<lparr>files = Map.empty, dirs = {''.''}\<rparr>)
     = Inl (NotFound ''Input file not found: sales.csv'')
   \<and> fsAfter (process 0 (newSalesProcessor ''sales.csv'' ''sales_report.csv'')
                \<lparr>files = Map.empty, dirs = {''.''}\<rparr>)
     = \<lparr>files = Map.empty, dirs = {''.''}\<rparr>"
  using process_missing_input [of "\<lparr>files = Map.empty, dirs = {''.''}\<rparr>"
      "newSalesProcessor ''sales.csv'' ''sales_report.csv''" 0]
  by (simp add: newSalesProcessor_def)

section \<open>The summary of an empty map\<close>

lemma blank_line_is_a_row:
  "map toRecord (csv_parser (''id,order_id,customer_id,total,date'' @ [CHR 0x0A, CHR 0x0A]))
     = [\<lparr>id' = NaN, order_id = NaN, customer_id = NaN, total = NaN, date = ''undefined''\<rparr>]"
  by (simp add: csv_eval str_eval)

text \<open>
  Claim C10.  On a processor whose bucket map is empty, \<open>getStats\<close> returns zero months,
  the empty year range and zero records; the map is empty on a new processor, and
  still so after \<open>process\<close> has read an input store for which the reader delivers no
  row.  (A store that consists of its header line is such a store; one with an empty
  line after the header is not, see \<open>blank_line_is_a_row\<close>.)
\<close>

theorem getStats_empty:
  "getStats (newSalesProcessor inp outp)
     = \<lparr>totalMonths = 0, yearRange = [], totalRecordsProcessed = 0\<rparr>
   \<and> (files fs inp = Some content \<and> csv_parser content = [] \<longrightarrow>
        getStats (processor (process tz (newSalesProcessor inp outp) fs))
          = \<lparr>totalMonths = 0, yearRange = [], totalRecordsProcessed = 0\<rparr>)"
  by (simp add: getStats_def newSalesProcessor_def process_def existsSync_def Let_def
      split: option.splits)

theorem getStats_empty_witness:
  "getStats (processor (process 0 (newSalesProcessor ''sales.csv'' ''sales_report.csv'')
       \<lparr>files = [''sales.csv'' \<mapsto> ''id,order_id,customer_id,total,date'' @ [CHR 0x0A]],
        dirs = {''.''}\<rparr>))
     = \<lparr>totalMonths = 0, yearRange = [], totalRecordsProcessed = 0\<rparr>"
proof -
  have "csv_parser (''id,order_id,customer_id,total,date'' @ [CHR 0x0A]) = []"
    by (simp add: csv_eval isSpace_def)
  then show ?thesis
    using getStats_empty [of "''sales.csv''" "''sales_report.csv''"
        "\<lparr>files = [''sales.csv'' \<mapsto> ''id,order_id,customer_id,total,date'' @ [CHR 0x0A]],
          dirs = {''.''}\<rparr>" "''id,order_id,customer_id,total,date'' @ [CHR 0x0A]" 0]
    by simp
qed

end
